theory Spec2Isabelle
  imports Complex_Main "HOL-Library.Word"
begin

unbundle bit_operations_syntax

section \<open>unicorn2audio: frame decoder, buffers, resampling glue and ratio controller\<close>

text \<open>
  The development embeds \<^verbatim>\<open>src/unicorn2audio.c\<close>. The frame decoder
  \<^verbatim>\<open>unicorn_pull_sample\<close> is textually the same in \<^verbatim>\<open>unicorn2txt.c\<close> and
  \<^verbatim>\<open>unicorn2lsl.c\<close>.

  Conventions of the embedding.
  \<^item> \<^verbatim>\<open>float\<close> and \<^verbatim>\<open>double\<close> values are real numbers and their arithmetic is exact:
    rounding, infinities and NaN are not modelled. The theorems below only use signs, order
    and algebraic identities.
  \<^item> \<^verbatim>\<open>unsigned char\<close> is \<open>8 word\<close>, \<^verbatim>\<open>short\<close> is \<open>16 word\<close> read with \<open>sint\<close>,
    \<^verbatim>\<open>unsigned long\<close> is \<open>64 word\<close> read with \<open>unat\<close> (the LP64 platforms the file's
    \<^verbatim>\<open>#if defined __linux__ || defined __APPLE__\<close> branch addresses; no decoded value
    reaches \<open>2 ^ 32\<close>, so a 32-bit \<^verbatim>\<open>unsigned long\<close> gives the same numbers).
  \<^item> A \<^verbatim>\<open>float *\<close> buffer is a store \<open>nat \<Rightarrow> real\<close> indexed from the pointer, so that a
    write past the allocated block is a write like any other, as it is in C.
  \<^item> Frame counts and sizes are natural numbers.
  \<^item> The producer loop and the audio callback are two threads with no synchronisation.
    A run is an interleaving of their steps. Every access of the shared global
    \<^verbatim>\<open>outputLimit\<close> is a step of its own: the two reads and the write of each
    \<^verbatim>\<open>outputLimit = max(outputLimit, ...)\<close> and the read in \<^verbatim>\<open>eegdata[i] / outputLimit\<close>,
    in both threads. The other statements that touch shared data (the increment of
    \<^verbatim>\<open>inputData.frames\<close>, the draining of the output buffer, the call of
    \<^verbatim>\<open>resample_buffers\<close> with \<^verbatim>\<open>update_ratio\<close>) are one step each.
\<close>

subsection \<open>Macros\<close>

text \<open>\<^verbatim>\<open>#define min(x, y) ((x)<(y) ? x : y)\<close> and \<^verbatim>\<open>#define max(x, y) ((x)>(y) ? x : y)\<close>\<close>

definition minf :: "'a::linorder \<Rightarrow> 'a \<Rightarrow> 'a" where
  "minf x y = (if x < y then x else y)"

definition maxf :: "'a::linorder \<Rightarrow> 'a \<Rightarrow> 'a" where
  "maxf x y = (if x > y then x else y)"

text \<open>\<^verbatim>\<open>#define smooth(old, new, lambda) ((1.0-lambda)*(old) + (lambda)*(new))\<close>\<close>

definition smooth :: "real \<Rightarrow> real \<Rightarrow> real \<Rightarrow> real" where
  "smooth old new lambda = (1 - lambda) * old + lambda * new"

definition BLOCKSIZE :: real where "BLOCKSIZE = 0.01"
definition FSAMPLE :: nat where "FSAMPLE = 250"
definition NCHAN :: nat where "NCHAN = 16"
definition PACKETSIZE :: int where "PACKETSIZE = 45"
definition paContinue :: int where "paContinue = 0"

subsection \<open>Frame decoder: \<^verbatim>\<open>unicorn_pull_sample\<close>\<close>

type_synonym byte = "8 word"

text \<open>
  One EEG channel (the body of the first \<^verbatim>\<open>for\<close> loop): three bytes, big-endian, into an
  \<^verbatim>\<open>unsigned long\<close>; when bit 23 is set the value is OR-ed with \<^verbatim>\<open>0xFF000000\<close>.
\<close>

definition eeg_val :: "byte list \<Rightarrow> nat \<Rightarrow> 64 word" where
  "eeg_val buf ch =
     (let val = push_bit 16 (ucast (buf ! (3 + ch * 3)))
                OR push_bit 8 (ucast (buf ! (4 + ch * 3)))
                OR ucast (buf ! (5 + ch * 3))
      in if val AND 0x00800000 \<noteq> 0 then val OR 0xFF000000 else val)"

text \<open>\<^verbatim>\<open>dat[ch] = (float)val * 4500000. / 50331642.\<close>: the conversion of an unsigned value.\<close>

definition eeg_uV :: "byte list \<Rightarrow> nat \<Rightarrow> real" where
  "eeg_uV buf ch = real (unat (eeg_val buf ch)) * 4500000 / 50331642"

text \<open>
  \<^verbatim>\<open>short val = (short)buf[off] | (short)buf[off+1] << 8\<close>: little-endian, kept to 16 bits and
  read as two's complement.
\<close>

definition short_val :: "byte list \<Rightarrow> nat \<Rightarrow> 16 word" where
  "short_val buf off = ucast (buf ! off) OR push_bit 8 (ucast (buf ! (off + 1)))"

definition accel_g :: "byte list \<Rightarrow> nat \<Rightarrow> real" where
  "accel_g buf ch = real_of_int (sint (short_val buf (27 + ch * 2))) / 4096"

definition gyro_dps :: "byte list \<Rightarrow> nat \<Rightarrow> real" where
  "gyro_dps buf ch = real_of_int (sint (short_val buf (33 + ch * 2))) / 32.8"

definition battery_pct :: "byte list \<Rightarrow> real" where
  "battery_pct buf = real (unat (buf ! 2 AND 0x0F)) * 100 / 15"

definition counter_val :: "byte list \<Rightarrow> 64 word" where
  "counter_val buf =
     ucast (buf ! 39) OR push_bit 8 (ucast (buf ! 40))
     OR push_bit 16 (ucast (buf ! 41)) OR push_bit 24 (ucast (buf ! 42))"

text \<open>
  \<open>result\<close> is what \<^verbatim>\<open>sp_blocking_read(port, buf, PACKETSIZE, TIMEOUT)\<close> returned and \<open>buf\<close>
  the 45-byte array afterwards. \<open>None\<close> is \<^verbatim>\<open>return 1\<close> (nothing is written to \<^verbatim>\<open>dat\<close>);
  \<open>Some dat\<close> is \<^verbatim>\<open>return 0\<close> with the 16 values written.
\<close>

definition unicorn_pull_sample :: "int \<Rightarrow> byte list \<Rightarrow> real list option" where
  "unicorn_pull_sample result buf =
     (if result \<noteq> PACKETSIZE \<or> buf ! 0 \<noteq> 0xC0 \<or> buf ! 1 \<noteq> 0x00 then None
      else Some (map (eeg_uV buf) [0..<8] @ map (accel_g buf) [0..<3]
                 @ map (gyro_dps buf) [0..<3]
                 @ [battery_pct buf, real (unat (counter_val buf))]))"

text \<open>A frame with the given EEG bytes for channel 0, everything else zero, battery nibble 15.\<close>

definition frame_ch0 :: "byte \<Rightarrow> byte \<Rightarrow> byte \<Rightarrow> byte list" where
  "frame_ch0 b0 b1 b2 = [0xC0, 0x00, 0x0F, b0, b1, b2] @ replicate 37 0 @ [0x0D, 0x0A]"

subsection \<open>Buffers and the resampler capability\<close>

text \<open>\<^verbatim>\<open>typedef struct { float *data; unsigned long frames; } dataBuffer_t;\<close>\<close>

record dataBuffer_t =
  data :: "nat \<Rightarrow> real"
  frames :: nat

text \<open>
  \<^verbatim>\<open>memcpy(base + dst, base + src, len)\<close> inside one buffer, in floats. The source only copies
  towards lower addresses (\<open>dst = 0\<close>), where a forward copy reads every float before it is
  overwritten.
\<close>

definition memcpy_store :: "(nat \<Rightarrow> real) \<Rightarrow> nat \<Rightarrow> nat \<Rightarrow> nat \<Rightarrow> (nat \<Rightarrow> real)" where
  "memcpy_store m dst src len = (\<lambda>i. if dst \<le> i \<and> i < dst + len then m (src + (i - dst)) else m i)"

text \<open>The floats \<open>xs\<close> written consecutively from index \<open>off\<close>.\<close>

definition write_block :: "(nat \<Rightarrow> real) \<Rightarrow> nat \<Rightarrow> real list \<Rightarrow> (nat \<Rightarrow> real)" where
  "write_block m off xs = (\<lambda>i. if off \<le> i \<and> i < off + length xs then xs ! (i - off) else m i)"

text \<open>
  libsamplerate is an external library. \<^verbatim>\<open>src_process\<close> is a parameter of the model: from
  the converter state, \<^verbatim>\<open>src_ratio\<close>, the channel count, the \<^verbatim>\<open>input_frames\<close> frames at
  \<^verbatim>\<open>data_in\<close>, \<^verbatim>\<open>input_frames\<close> and \<^verbatim>\<open>output_frames\<close> it yields its error code,
  \<^verbatim>\<open>input_frames_used\<close>, \<^verbatim>\<open>output_frames_gen\<close>, the floats it wrote from \<^verbatim>\<open>data_out\<close> on and
  its next state. \<^verbatim>\<open>src_set_ratio\<close> yields an error code and the next state.
\<close>

record 'r src_result =
  src_error :: int
  input_frames_used :: nat
  output_frames_gen :: nat
  data_out :: "real list"
  src_state :: 'r

record 'r resampler =
  src_process :: "'r \<Rightarrow> real \<Rightarrow> nat \<Rightarrow> real list \<Rightarrow> nat \<Rightarrow> nat \<Rightarrow> 'r src_result"
  src_set_ratio :: "'r \<Rightarrow> real \<Rightarrow> int \<times> 'r"

text \<open>
  The documented contract of \<^verbatim>\<open>src_process\<close>: on success it uses at most
  \<^verbatim>\<open>input_frames\<close> frames, generates at most \<^verbatim>\<open>output_frames\<close> frames and writes exactly the
  generated frames.
\<close>

definition src_contract :: "'r resampler \<Rightarrow> bool" where
  "src_contract src =
     (\<forall>st ratio ch inp nin nout.
        src_error (src_process src st ratio ch inp nin nout) = 0 \<longrightarrow>
          input_frames_used (src_process src st ratio ch inp nin nout) \<le> nin
          \<and> output_frames_gen (src_process src st ratio ch inp nin nout) \<le> nout
          \<and> length (data_out (src_process src st ratio ch inp nin nout))
              = output_frames_gen (src_process src st ratio ch inp nin nout) * ch)"

subsection \<open>Pipeline state (the globals of the file and the locals of \<^verbatim>\<open>main\<close> that persist)\<close>

datatype error = CannotReadPacket | SrcError int

text \<open>
  Where each thread stands, and what it holds in locals. The statement
  \<^verbatim>\<open>outputLimit = max(outputLimit, v)\<close> expands to
  \<^verbatim>\<open>outputLimit = ((outputLimit)>(v) ? outputLimit : v)\<close>: it reads \<^verbatim>\<open>outputLimit\<close> for the
  comparison, reads it again when the comparison holds, and then assigns.

  The producer is at the head of its loop (\<open>PIdle\<close>), or inside the inner loop at channel
  \<open>i\<close>: before the comparison (\<open>PTest i\<close>), before the second read of \<^verbatim>\<open>outputLimit\<close>
  (\<open>PRead i\<close>), before the assignment to \<^verbatim>\<open>outputLimit\<close> (\<open>PWrite i\<close>), before the store of
  \<^verbatim>\<open>eegdata[i] / outputLimit\<close> (\<open>PStore i\<close>), or before \<^verbatim>\<open>inputData.frames++\<close> (\<open>PEnd\<close>).
  \<open>psample\<close> is the filtered \<^verbatim>\<open>eegdata\<close> and \<open>preg\<close> the value of the conditional expression,
  which the assignment writes. The callback is not running (\<open>CIdle\<close>), or inside its
  \<^verbatim>\<open>outputLimit\<close> loop at index \<open>j\<close> before the comparison (\<open>CTest j\<close>), before the second
  read (\<open>CRead j\<close>) or before the assignment (\<open>CWrite j\<close>), or before the call of
  \<^verbatim>\<open>resample_buffers\<close> (\<open>CFinish\<close>). \<open>cdata\<close> holds the floats copied to the destination,
  which the loop reads, and \<open>creg\<close> the value of the conditional expression.
\<close>

datatype ppc = PIdle | PTest nat | PRead nat | PWrite nat | PStore nat | PEnd

record producer_t =
  ppc :: ppc
  preg :: real
  psample :: "real list"

datatype cpc = CIdle | CTest nat | CRead nat | CWrite nat | CFinish

record callback_t =
  cpc :: cpc
  creg :: real
  cdata :: "real list"

record 'r pipeline =
  inputData :: dataBuffer_t
  outputData :: dataBuffer_t
  resampleState :: 'r
  inputRate :: real
  outputRate :: real
  resampleRatio :: real
  enableResample :: bool
  enableUpdate :: bool
  channelCount :: nat
  outputBlocksize :: nat
  inputBufsize :: nat
  outputBufsize :: nat
  outputLimit :: real
  eegfilt :: "real list"
  samplesReceived :: nat
  producer :: producer_t
  callback :: callback_t

text \<open>
  The global \<^verbatim>\<open>resampleData\<close> is not part of the state: every field of it that is read is
  assigned earlier in the same call of \<^verbatim>\<open>resample_buffers\<close>.
\<close>

subsection \<open>\<^verbatim>\<open>resample_buffers\<close>\<close>

text \<open>
  \<^verbatim>\<open>exit(srcErr)\<close> is the result \<open>Inl (SrcError srcErr)\<close>. \<^verbatim>\<open>outputBufsize - outputData.frames\<close>
  and \<^verbatim>\<open>inputData.frames - input_frames_used\<close> are natural-number subtractions: the first
  is passed on only when the fill differs from the capacity and never exceeds it in a run
  with a resampler that keeps its contract (\<open>run_out_bound\<close> below); the second does not
  go below zero for such a resampler.
\<close>

definition resample_buffers :: "'r resampler \<Rightarrow> 'r pipeline \<Rightarrow> error + 'r pipeline" where
  "resample_buffers src s =
     (let ind = inputData s; outd = outputData s; ch = channelCount s;
          output_frames = outputBufsize s - frames outd
      in if frames ind = 0 then Inr s
         else if frames outd = outputBufsize s then Inr s
         else
           let r = src_process src (resampleState s) (resampleRatio s) ch
                     (map (data ind) [0..<frames ind * ch]) (frames ind) output_frames
           in if src_error r \<noteq> 0 then Inl (SrcError (src_error r))
              else Inr (s\<lparr>
                outputData :=
                  \<lparr>data = write_block (data outd) (frames outd * ch) (data_out r),
                   frames = frames outd + output_frames_gen r\<rparr>,
                inputData :=
                  \<lparr>data = memcpy_store (data ind) 0 (input_frames_used r * ch)
                            ((frames ind - input_frames_used r) * ch),
                   frames = frames ind - input_frames_used r\<rparr>,
                resampleState := src_state r\<rparr>))"

subsection \<open>\<^verbatim>\<open>update_ratio\<close>\<close>

definition update_ratio :: "'r pipeline \<Rightarrow> 'r pipeline" where
  "update_ratio s =
     (let nominal = outputRate s / inputRate s;
          fill = real (frames (outputData s));
          estimate0 = nominal + (0.5 * real (outputBufsize s) - fill) / real (outputBlocksize s);
          estimate1 = minf estimate0 (1.2 * nominal);
          estimate = maxf estimate1 (0.8 * nominal);
          verylow = 0.40 * real (outputBufsize s);
          low = 0.48 * real (outputBufsize s);
          high = 0.52 * real (outputBufsize s);
          veryhigh = 0.60 * real (outputBufsize s)
      in if fill < verylow then
           s\<lparr>resampleRatio := smooth (resampleRatio s) estimate (10 * BLOCKSIZE)\<rparr>
         else if fill < low then
           s\<lparr>resampleRatio := smooth (resampleRatio s) estimate (1 * BLOCKSIZE)\<rparr>
         else if fill > high then
           s\<lparr>resampleRatio := smooth (resampleRatio s) estimate (1 * BLOCKSIZE)\<rparr>
         else if fill > veryhigh then
           s\<lparr>resampleRatio := smooth (resampleRatio s) estimate (10 * BLOCKSIZE)\<rparr>
         else
           s\<lparr>resampleRatio := smooth (resampleRatio s) nominal (10 * BLOCKSIZE)\<rparr>)"

subsection \<open>\<^verbatim>\<open>output_callback\<close>\<close>

text \<open>
  The destination \<^verbatim>\<open>output\<close> is returned as the list of the \<open>frameCount * channelCount\<close>
  floats written to it, with the updated state and the status code. \<^verbatim>\<open>newFrames\<close> is an
  \<^verbatim>\<open>unsigned int\<close>; it is at most the fill, which the \<^verbatim>\<open>int\<close> capacity bounds, so it
  does not wrap. The \<^verbatim>\<open>exit\<close> inside \<^verbatim>\<open>resample_buffers\<close> ends the callback with it.
\<close>

definition output_callback ::
  "'r resampler \<Rightarrow> 'r pipeline \<Rightarrow> nat \<Rightarrow> error + (real list \<times> 'r pipeline \<times> int)" where
  "output_callback src s frameCount =
     (let outd = outputData s; ch = channelCount s;
          newFrames = minf frameCount (frames outd);
          dest = map (data outd) [0..<newFrames * ch]
                 @ replicate ((frameCount - newFrames) * ch) 0;
          outd' = \<lparr>data = memcpy_store (data outd) 0 (newFrames * ch)
                            ((frames outd - newFrames) * ch),
                   frames = frames outd - newFrames\<rparr>;
          limit = foldl (\<lambda>L v. maxf L \<bar>v\<bar>) (outputLimit s) (take (newFrames * ch) dest);
          s1 = s\<lparr>outputData := outd', outputLimit := limit\<rparr>
      in case (if enableResample s1 then resample_buffers src s1 else Inr s1) of
           Inl e \<Rightarrow> Inl e
         | Inr s2 \<Rightarrow> Inr (dest, if enableUpdate s2 then update_ratio s2 else s2, paContinue))"

subsection \<open>The producer: the loops of \<^verbatim>\<open>main\<close>\<close>

definition lambda :: real where "lambda = 0.0002772"

text \<open>
  \<^verbatim>\<open>for (i=0; i<channelCount; i++) eegdata[i] -= smooth(eegfilt[i], eegdata[i], lambda);\<close>
  The loop assigns to \<^verbatim>\<open>eegdata\<close> only.
\<close>

definition lowpass :: "'r pipeline \<Rightarrow> real list \<Rightarrow> real list" where
  "lowpass s eegdata =
     map (\<lambda>i. if i < channelCount s
               then eegdata ! i - smooth (eegfilt s ! i) (eegdata ! i) lambda
               else eegdata ! i) [0..<NCHAN]"

text \<open>
  One pass of the inner loop that raises \<^verbatim>\<open>outputLimit\<close> and stores
  \<^verbatim>\<open>eegdata[i] / outputLimit\<close> at \<^verbatim>\<open>inputData.frames * channelCount + i\<close>.
\<close>

definition store_channel :: "real list \<Rightarrow> 'r pipeline \<Rightarrow> nat \<Rightarrow> 'r pipeline" where
  "store_channel eegdata s i =
     (let limit = maxf (outputLimit s) \<bar>eegdata ! i\<bar>;
          ind = inputData s
      in s\<lparr>outputLimit := limit,
           inputData := ind\<lparr>data := (data ind)
             (frames ind * channelCount s + i := eegdata ! i / limit)\<rparr>\<rparr>)"

definition store_sample :: "'r pipeline \<Rightarrow> real list \<Rightarrow> 'r pipeline" where
  "store_sample s eegdata =
     (let s' = foldl (store_channel eegdata) s [0..<channelCount s]
      in s'\<lparr>inputData := (inputData s')\<lparr>frames := frames (inputData s') + 1\<rparr>\<rparr>)"

text \<open>
  The body shared by the priming loop (\<^verbatim>\<open>while (samplesReceived<inputBufsize/2)\<close>) and the
  running loop (\<^verbatim>\<open>while (keepRunning)\<close>): pull, count, filter, store, as it runs when no
  step of the callback falls inside it. That is every iteration of the priming loop, since
  the audio stream is started (\<^verbatim>\<open>Pa_StartStream\<close>) only after that loop. A read is given
  by its return value and the bytes in the buffer.
\<close>

definition pull_and_store :: "'r pipeline \<Rightarrow> int \<times> byte list \<Rightarrow> error + 'r pipeline" where
  "pull_and_store s rd =
     (case unicorn_pull_sample (fst rd) (snd rd) of
        None \<Rightarrow> Inl CannotReadPacket
      | Some eegdata \<Rightarrow>
          Inr (store_sample (s\<lparr>samplesReceived := samplesReceived s + 1\<rparr>) (lowpass s eegdata)))"

text \<open>
  The first pull after the warmup and \<^verbatim>\<open>eegfilt[i] = eegdata[i]\<close>. The filtered
  \<^verbatim>\<open>eegdata\<close> computed next is overwritten by the following pull.
\<close>

definition prime_first :: "'r pipeline \<Rightarrow> int \<times> byte list \<Rightarrow> error + 'r pipeline" where
  "prime_first s rd =
     (case unicorn_pull_sample (fst rd) (snd rd) of
        None \<Rightarrow> Inl CannotReadPacket
      | Some eegdata \<Rightarrow>
          Inr (s\<lparr>eegfilt := map (\<lambda>i. if i < channelCount s then eegdata ! i else eegfilt s ! i)
                              [0..<NCHAN]\<rparr>))"

text \<open>
  The priming loop over the reads it issues, in order; when no read is left the blocking
  read times out and the pull fails.
\<close>

fun fill_buffer :: "'r pipeline \<Rightarrow> (int \<times> byte list) list \<Rightarrow> error + 'r pipeline" where
  "fill_buffer s [] =
     (if samplesReceived s < inputBufsize s div 2 then Inl CannotReadPacket else Inr s)"
| "fill_buffer s (rd # rds) =
     (if samplesReceived s < inputBufsize s div 2
      then (case pull_and_store s rd of Inl e \<Rightarrow> Inl e | Inr s' \<Rightarrow> fill_buffer s' rds)
      else Inr s)"

text \<open>
  \<^verbatim>\<open>resampleRatio = outputRate / inputRate\<close>, \<^verbatim>\<open>src_set_ratio\<close>, and the two flags. The audio
  stream is taken to start. A callback that fires between \<^verbatim>\<open>Pa_StartStream\<close> and the
  assignment of the flags finds them cleared; the runs below start from any state, with the
  flags set or not.
\<close>

definition start_running :: "'r resampler \<Rightarrow> 'r pipeline \<Rightarrow> error + 'r pipeline" where
  "start_running src s =
     (let ratio = outputRate s / inputRate s;
          r = src_set_ratio src (resampleState s) ratio
      in if fst r \<noteq> 0 then Inl (SrcError (fst r))
         else Inr (s\<lparr>resampleRatio := ratio, resampleState := snd r,
                     enableResample := True, enableUpdate := True\<rparr>))"

text \<open>
  One iteration of the running loop, statement by statement. \<open>prod_start\<close> is the pull,
  \<^verbatim>\<open>samplesReceived++\<close> and the filter loop, which touch nothing the callback writes.
  \<open>prod_step\<close> is the next step of the inner loop: the comparison
  \<^verbatim>\<open>outputLimit > fabsf(eegdata[i])\<close>, which selects \<^verbatim>\<open>fabsf(eegdata[i])\<close> when it fails; the
  second read of \<^verbatim>\<open>outputLimit\<close> when it holds; the assignment of the selected value to
  \<^verbatim>\<open>outputLimit\<close>; the store of \<^verbatim>\<open>eegdata[i] / outputLimit\<close> with \<^verbatim>\<open>outputLimit\<close> and
  \<^verbatim>\<open>inputData.frames\<close> as they are at that moment; and at the end \<^verbatim>\<open>inputData.frames++\<close>.
  A step that the thread cannot take where it stands leaves the state as it is.
\<close>

definition prod_start :: "'r pipeline \<Rightarrow> int \<times> byte list \<Rightarrow> error + 'r pipeline" where
  "prod_start s rd =
     (if ppc (producer s) \<noteq> PIdle then Inr s
      else case unicorn_pull_sample (fst rd) (snd rd) of
        None \<Rightarrow> Inl CannotReadPacket
      | Some eegdata \<Rightarrow>
          Inr (s\<lparr>samplesReceived := samplesReceived s + 1,
                 producer := (producer s)\<lparr>psample := lowpass s eegdata,
                   ppc := (if 0 < channelCount s then PTest 0 else PEnd)\<rparr>\<rparr>))"

definition prod_step :: "'r pipeline \<Rightarrow> 'r pipeline" where
  "prod_step s =
     (case ppc (producer s) of
        PIdle \<Rightarrow> s
      | PTest i \<Rightarrow>
          (if outputLimit s > \<bar>psample (producer s) ! i\<bar>
           then s\<lparr>producer := (producer s)\<lparr>ppc := PRead i\<rparr>\<rparr>
           else s\<lparr>producer := (producer s)\<lparr>preg := \<bar>psample (producer s) ! i\<bar>, ppc := PWrite i\<rparr>\<rparr>)
      | PRead i \<Rightarrow> s\<lparr>producer := (producer s)\<lparr>preg := outputLimit s, ppc := PWrite i\<rparr>\<rparr>
      | PWrite i \<Rightarrow>
          s\<lparr>outputLimit := preg (producer s), producer := (producer s)\<lparr>ppc := PStore i\<rparr>\<rparr>
      | PStore i \<Rightarrow>
          s\<lparr>inputData := (inputData s)\<lparr>data := (data (inputData s))
               (frames (inputData s) * channelCount s + i
                  := psample (producer s) ! i / outputLimit s)\<rparr>,
            producer := (producer s)\<lparr>ppc := (if i + 1 < channelCount s then PTest (i + 1) else PEnd)\<rparr>\<rparr>
      | PEnd \<Rightarrow>
          s\<lparr>inputData := (inputData s)\<lparr>frames := frames (inputData s) + 1\<rparr>,
            producer := (producer s)\<lparr>ppc := PIdle\<rparr>\<rparr>)"

text \<open>
  One invocation of the callback, in steps. \<open>cb_start\<close> is the part up to
  \<^verbatim>\<open>outputData->frames -= newFrames\<close>: the copy to the destination, the zero-fill and the
  compaction, none of which touches what the producer writes. \<open>cb_step\<close> is the next step:
  in the loop over the copied floats the comparison \<^verbatim>\<open>outputLimit > fabsf(data[i])\<close>, the
  second read of \<^verbatim>\<open>outputLimit\<close> when it holds, then the assignment of the selected value;
  after the loop the calls of \<^verbatim>\<open>resample_buffers\<close> and \<^verbatim>\<open>update_ratio\<close> under their flags,
  and the return.
\<close>

definition cb_start :: "'r pipeline \<Rightarrow> nat \<Rightarrow> 'r pipeline" where
  "cb_start s frameCount =
     (if cpc (callback s) \<noteq> CIdle then s
      else
        let outd = outputData s; ch = channelCount s;
            newFrames = minf frameCount (frames outd);
            copied = map (data outd) [0..<newFrames * ch]
        in s\<lparr>outputData :=
               \<lparr>data = memcpy_store (data outd) 0 (newFrames * ch)
                         ((frames outd - newFrames) * ch),
                frames = frames outd - newFrames\<rparr>,
             callback := (callback s)\<lparr>cdata := copied,
               cpc := (if 0 < length copied then CTest 0 else CFinish)\<rparr>\<rparr>)"

definition cb_step :: "'r resampler \<Rightarrow> 'r pipeline \<Rightarrow> error + 'r pipeline" where
  "cb_step src s =
     (case cpc (callback s) of
        CIdle \<Rightarrow> Inr s
      | CTest j \<Rightarrow>
          Inr (if outputLimit s > \<bar>cdata (callback s) ! j\<bar>
               then s\<lparr>callback := (callback s)\<lparr>cpc := CRead j\<rparr>\<rparr>
               else s\<lparr>callback := (callback s)\<lparr>creg := \<bar>cdata (callback s) ! j\<bar>, cpc := CWrite j\<rparr>\<rparr>)
      | CRead j \<Rightarrow> Inr (s\<lparr>callback := (callback s)\<lparr>creg := outputLimit s, cpc := CWrite j\<rparr>\<rparr>)
      | CWrite j \<Rightarrow>
          Inr (s\<lparr>outputLimit := creg (callback s),
                 callback := (callback s)\<lparr>cpc := (if j + 1 < length (cdata (callback s)) then CTest (j + 1)
                                       else CFinish)\<rparr>\<rparr>)
      | CFinish \<Rightarrow>
          (case (if enableResample s then resample_buffers src s else Inr s) of
             Inl e \<Rightarrow> Inl e
           | Inr s2 \<Rightarrow>
               Inr ((if enableUpdate s2 then update_ratio s2 else s2)
                      \<lparr>callback := (callback s)\<lparr>cpc := CIdle\<rparr>\<rparr>)))"

text \<open>
  The running phase is an interleaving of the two threads. \<open>Pull\<close> is a whole iteration of
  the producer loop and \<open>Callback\<close> a whole invocation of the callback, each running with
  no step of the other thread in between, from the thread's resting point; the other four
  events are the single steps above.
\<close>

datatype event =
  Pull "int \<times> byte list" | Callback nat
  | ProdStart "int \<times> byte list" | ProdStep | CbStart nat | CbStep

fun step :: "'r resampler \<Rightarrow> 'r pipeline \<Rightarrow> event \<Rightarrow> error + 'r pipeline" where
  "step src s (Pull rd) = (if ppc (producer s) = PIdle then pull_and_store s rd else Inr s)"
| "step src s (Callback frameCount) =
     (if cpc (callback s) = CIdle
      then (case output_callback src s frameCount of
              Inl e \<Rightarrow> Inl e
            | Inr res \<Rightarrow> Inr (fst (snd res)))
      else Inr s)"
| "step src s (ProdStart rd) = prod_start s rd"
| "step src s ProdStep = Inr (prod_step s)"
| "step src s (CbStart frameCount) = Inr (cb_start s frameCount)"
| "step src s CbStep = cb_step src s"

fun run :: "'r resampler \<Rightarrow> 'r pipeline \<Rightarrow> event list \<Rightarrow> error + 'r pipeline" where
  "run src s [] = Inr s"
| "run src s (ev # evs) = (case step src s ev of Inl e \<Rightarrow> Inl e | Inr s' \<Rightarrow> run src s' evs)"

text \<open>
  The state when the warmup ends: rates and sizes as \<^verbatim>\<open>main\<close> computes them (a
  non-negative float converted to \<^verbatim>\<open>int\<close> is its floor), both buffers zeroed and empty,
  \<^verbatim>\<open>outputLimit = 1.\<close>, the flags and the ratio at their static initial value.
  \<open>maxch\<close> is the channel count of the device or the number the user typed; \<open>filt0\<close> is
  the uninitialised \<^verbatim>\<open>eegfilt\<close> array. The 1250 warmup frames are pulled and dropped
  and leave no trace in the state. Both threads are at rest; their locals hold nothing
  that is read before it is assigned.
\<close>

definition init_pipeline :: "real \<Rightarrow> real \<Rightarrow> real \<Rightarrow> nat \<Rightarrow> 'r \<Rightarrow> real list \<Rightarrow> 'r pipeline" where
  "init_pipeline bufferSize blockSize rate maxch st filt0 =
     \<lparr>inputData = \<lparr>data = (\<lambda>_. 0), frames = 0\<rparr>,
      outputData = \<lparr>data = (\<lambda>_. 0), frames = 0\<rparr>,
      resampleState = st,
      inputRate = real FSAMPLE,
      outputRate = rate,
      resampleRatio = 0,
      enableResample = False,
      enableUpdate = False,
      channelCount = minf 8 maxch,
      outputBlocksize = nat \<lfloor>blockSize * rate\<rfloor>,
      inputBufsize = nat \<lfloor>bufferSize * real FSAMPLE\<rfloor>,
      outputBufsize = nat \<lfloor>bufferSize * rate\<rfloor>,
      outputLimit = 1,
      eegfilt = filt0,
      samplesReceived = 0,
      producer = \<lparr>ppc = PIdle, preg = 0, psample = []\<rparr>,
      callback = \<lparr>cpc = CIdle, creg = 0, cdata = []\<rparr>\<rparr>"

text \<open>
  A session from the end of the warmup: first pull, priming loop, start, running phase.
\<close>

definition main_session ::
  "'r resampler \<Rightarrow> 'r pipeline \<Rightarrow> int \<times> byte list \<Rightarrow> (int \<times> byte list) list \<Rightarrow> event list
     \<Rightarrow> error + 'r pipeline" where
  "main_session src s0 rd0 rds evs =
     (case prime_first s0 rd0 of
        Inl e \<Rightarrow> Inl e
      | Inr s1 \<Rightarrow>
          (case fill_buffer s1 rds of
             Inl e \<Rightarrow> Inl e
           | Inr s2 \<Rightarrow>
               (case start_running src s2 of
                  Inl e \<Rightarrow> Inl e
                | Inr s3 \<Rightarrow> run src s3 evs)))"

text \<open>
  A stand-in converter for concrete runs: it copies as many frames as fit, one for one.
\<close>

definition copy_src :: "unit resampler" where
  "copy_src =
     \<lparr>src_process = (\<lambda>st ratio ch inp nin nout.
        \<lparr>src_error = 0, input_frames_used = min nin nout, output_frames_gen = min nin nout,
         data_out = map (\<lambda>i. if i < length inp then inp ! i else 0) [0..<min nin nout * ch],
         src_state = st\<rparr>),
      src_set_ratio = (\<lambda>st ratio. (0, st))\<rparr>"

text \<open>Concrete inputs for the runs evaluated below.\<close>

definition default_pipeline :: "unit pipeline" where
  "default_pipeline = init_pipeline 2 0.01 44100 8 () (replicate 16 0)"

definition read_ch0 :: "byte \<Rightarrow> byte \<Rightarrow> byte \<Rightarrow> int \<times> byte list" where
  "read_ch0 b0 b1 b2 = (45, frame_ch0 b0 b1 b2)"

text \<open>
  Two views of \<^verbatim>\<open>output_callback\<close> used in the proofs: the state in which it calls
  \<^verbatim>\<open>resample_buffers\<close> (buffer drained and compacted, \<^verbatim>\<open>outputLimit\<close> raised over the
  copied floats), and the floats it leaves in the destination.
\<close>

definition drained :: "'r pipeline \<Rightarrow> nat \<Rightarrow> 'r pipeline" where
  "drained s frameCount =
     (let outd = outputData s; ch = channelCount s; n = minf frameCount (frames outd)
      in s\<lparr>outputData := \<lparr>data = memcpy_store (data outd) 0 (n * ch) ((frames outd - n) * ch),
                           frames = frames outd - n\<rparr>,
           outputLimit := foldl (\<lambda>L v. maxf L \<bar>v\<bar>) (outputLimit s)
              (map (data outd) [0..<n * ch])\<rparr>)"

definition played :: "'r pipeline \<Rightarrow> nat \<Rightarrow> real list" where
  "played s frameCount =
     (let outd = outputData s; ch = channelCount s; n = minf frameCount (frames outd)
      in map (data outd) [0..<n * ch] @ replicate ((frameCount - n) * ch) 0)"


definition overfull_pipeline :: "unit pipeline" where
  "overfull_pipeline = default_pipeline\<lparr>resampleRatio := 176.4,
      outputData := \<lparr>data = (\<lambda>_. 0), frames = 60000\<rparr>\<rparr>"

definition small_pipeline :: "unit pipeline" where
  "small_pipeline = init_pipeline 0.016 0.01 44100 8 () (replicate 16 0)"

text \<open>
  A short session: the first sample after the warmup has channel 0 at 0 counts, the two
  samples of the priming loop have it at 1 count.
\<close>

definition baseline_demo :: "error + unit pipeline" where
  "baseline_demo = main_session copy_src small_pipeline (read_ch0 0 0 0)
      [read_ch0 0 0 1, read_ch0 0 0 1] []"


text \<open>
  What every state of a session satisfies about \<^verbatim>\<open>outputLimit\<close>: it is at least 1, and so is
  a value that a thread is about to assign to it.
\<close>

definition limit_inv :: "'r pipeline \<Rightarrow> bool" where
  "limit_inv s =
     (1 \<le> outputLimit s
      \<and> (case ppc (producer s) of PWrite i \<Rightarrow> 1 \<le> preg (producer s) | _ \<Rightarrow> True)
      \<and> (case cpc (callback s) of CWrite j \<Rightarrow> 1 \<le> creg (callback s) | _ \<Rightarrow> True))"

text \<open>The events in which one thread runs a whole iteration or invocation undisturbed.\<close>

fun uninterrupted :: "event \<Rightarrow> bool" where
  "uninterrupted (Pull rd) = True"
| "uninterrupted (Callback frameCount) = True"
| "uninterrupted (ProdStart rd) = False"
| "uninterrupted ProdStep = False"
| "uninterrupted (CbStart frameCount) = False"
| "uninterrupted CbStep = False"


section \<open>Properties\<close>

subsection \<open>Frame decoder\<close>

lemma eeg_uV_nonneg: "0 \<le> eeg_uV buf ch"
  unfolding eeg_uV_def
  by (rule divide_nonneg_nonneg [OF mult_nonneg_nonneg [OF of_nat_0_le_iff]]) simp_all

lemma pull_None_iff:
  "(unicorn_pull_sample result buf = None) = (result \<noteq> 45 \<or> buf ! 0 \<noteq> 0xC0 \<or> buf ! 1 \<noteq> 0x00)"
  by (simp add: unicorn_pull_sample_def PACKETSIZE_def)

lemma pull_length: "unicorn_pull_sample result buf = Some dat \<Longrightarrow> length dat = 16"
  by (auto simp: unicorn_pull_sample_def split: if_splits)

lemma trailer_eeg: "ch < 8 \<Longrightarrow> eeg_uV (buf[43 := t0, 44 := t1]) ch = eeg_uV buf ch"
  by (simp add: eeg_uV_def eeg_val_def)

lemma trailer_accel: "ch < 3 \<Longrightarrow> accel_g (buf[43 := t0, 44 := t1]) ch = accel_g buf ch"
  by (simp add: accel_g_def short_val_def)

lemma trailer_gyro: "ch < 3 \<Longrightarrow> gyro_dps (buf[43 := t0, 44 := t1]) ch = gyro_dps buf ch"
  by (simp add: gyro_dps_def short_val_def)

lemma trailer_rest:
  "battery_pct (buf[43 := t0, 44 := t1]) = battery_pct buf"
  "counter_val (buf[43 := t0, 44 := t1]) = counter_val buf"
  by (simp_all add: battery_pct_def counter_val_def)

lemma trailer_ignored:
  "unicorn_pull_sample result (buf[43 := t0, 44 := t1]) = unicorn_pull_sample result buf"
  by (simp add: unicorn_pull_sample_def trailer_eeg trailer_accel trailer_gyro trailer_rest
      cong: map_cong)

text \<open>
  Claim C1 (sign of the EEG values). The claim is that a 24-bit value with bit 23 set is
  decoded as a negative number: bytes \<open>FF FF FF\<close> give \<open>-1\<close>, hence about \<open>-0.0894\<close>
  microvolt, and \<open>0x800000\<close> gives the most negative value. The code keeps the value in an
  \<^verbatim>\<open>unsigned long\<close> and converts that to \<^verbatim>\<open>float\<close>: bytes \<open>FF FF FF\<close> give
  \<open>4294967295\<close> counts (about \<open>3.84e8\<close> microvolt), \<open>0x800000\<close> gives \<open>4286578688\<close>
  counts, which is above the value for \<open>0x7FFFFF\<close>, and no decoded EEG value is negative.
\<close>

theorem eeg_decode_never_negative:
  "map_option (\<lambda>dat. dat ! 0) (unicorn_pull_sample 45 (frame_ch0 0xFF 0xFF 0xFF))
     = Some (4294967295 * 4500000 / 50331642)
   \<and> eeg_uV (frame_ch0 0x80 0x00 0x00) 0 = 4286578688 * 4500000 / 50331642
   \<and> eeg_uV (frame_ch0 0x7F 0xFF 0xFF) 0 = 8388607 * 4500000 / 50331642
   \<and> eeg_uV (frame_ch0 0x7F 0xFF 0xFF) 0 < eeg_uV (frame_ch0 0x80 0x00 0x00) 0
   \<and> (\<forall>buf ch. 0 \<le> eeg_uV buf ch)"
  by (simp add: unicorn_pull_sample_def frame_ch0_def PACKETSIZE_def eeg_val_def upt_rec
      eeg_uV_nonneg) (simp add: eeg_uV_def eeg_val_def frame_ch0_def)

theorem eeg_decode_never_negative_witness:
  "0 \<le> eeg_uV (frame_ch0 0xFF 0xFF 0xFF) 0
   \<and> eeg_uV (frame_ch0 0x7F 0xFF 0xFF) 0 < eeg_uV (frame_ch0 0x80 0x00 0x00) 0"
  using eeg_decode_never_negative by blast

text \<open>
  Claim C9 (framing check). For a read that returns at most the 45 bytes asked for,
  \<^verbatim>\<open>unicorn_pull_sample\<close> fails exactly when fewer than 45 bytes were read or byte 0 is not
  \<open>0xC0\<close> or byte 1 is not \<open>0x00\<close>; the bytes at offsets 43 and 44 change neither the
  outcome nor any decoded value; a successful call yields 16 values.
\<close>

theorem pull_sample_fails_iff:
  assumes "result \<le> 45"
  shows "(unicorn_pull_sample result buf = None
            \<longleftrightarrow> result < 45 \<or> buf ! 0 \<noteq> 0xC0 \<or> buf ! 1 \<noteq> 0x00)
         \<and> unicorn_pull_sample result (buf[43 := t0, 44 := t1]) = unicorn_pull_sample result buf
         \<and> (\<forall>dat. unicorn_pull_sample result buf = Some dat \<longrightarrow> length dat = 16)"
  using assms by (auto simp: pull_None_iff trailer_ignored pull_length)

theorem pull_sample_fails_iff_witness:
  "(45::int) \<le> 45 \<and> unicorn_pull_sample 45 (frame_ch0 0 0 1) \<noteq> None
   \<and> unicorn_pull_sample 44 (frame_ch0 0 0 1) = None
   \<and> unicorn_pull_sample 45 ((frame_ch0 0 0 1)[43 := 0xAA, 44 := 0xBB])
       = unicorn_pull_sample 45 (frame_ch0 0 0 1)"
  using pull_sample_fails_iff [of 45 "frame_ch0 0 0 1" "0xAA" "0xBB"]
    pull_sample_fails_iff [of 44 "frame_ch0 0 0 1" 0 0]
  by (simp add: frame_ch0_def)

subsection \<open>What each operation leaves unchanged\<close>

lemma maxf_max: "maxf x y = max x y"
  by (auto simp: maxf_def max_def)

lemma minf_min: "minf x y = min x y"
  by (auto simp: minf_def min_def)

lemma store_channel_frame:
  "eegfilt (store_channel d s i) = eegfilt s"
  "channelCount (store_channel d s i) = channelCount s"
  "inputBufsize (store_channel d s i) = inputBufsize s"
  "outputBufsize (store_channel d s i) = outputBufsize s"
  "outputBlocksize (store_channel d s i) = outputBlocksize s"
  "inputRate (store_channel d s i) = inputRate s"
  "outputRate (store_channel d s i) = outputRate s"
  "resampleRatio (store_channel d s i) = resampleRatio s"
  "enableResample (store_channel d s i) = enableResample s"
  "enableUpdate (store_channel d s i) = enableUpdate s"
  "outputData (store_channel d s i) = outputData s"
  "resampleState (store_channel d s i) = resampleState s"
  "samplesReceived (store_channel d s i) = samplesReceived s"
  "frames (inputData (store_channel d s i)) = frames (inputData s)"
  by (simp_all add: store_channel_def Let_def)

lemma store_channel_limit:
  "outputLimit (store_channel d s i) = max (outputLimit s) \<bar>d ! i\<bar>"
  by (simp add: store_channel_def Let_def maxf_max)

lemma foldl_store_channel_frame:
  "eegfilt (foldl (store_channel d) s is) = eegfilt s"
  "channelCount (foldl (store_channel d) s is) = channelCount s"
  "inputBufsize (foldl (store_channel d) s is) = inputBufsize s"
  "outputBufsize (foldl (store_channel d) s is) = outputBufsize s"
  "outputBlocksize (foldl (store_channel d) s is) = outputBlocksize s"
  "inputRate (foldl (store_channel d) s is) = inputRate s"
  "outputRate (foldl (store_channel d) s is) = outputRate s"
  "resampleRatio (foldl (store_channel d) s is) = resampleRatio s"
  "enableResample (foldl (store_channel d) s is) = enableResample s"
  "enableUpdate (foldl (store_channel d) s is) = enableUpdate s"
  "outputData (foldl (store_channel d) s is) = outputData s"
  "resampleState (foldl (store_channel d) s is) = resampleState s"
  "samplesReceived (foldl (store_channel d) s is) = samplesReceived s"
  "frames (inputData (foldl (store_channel d) s is)) = frames (inputData s)"
  by (induction "is" arbitrary: s; simp add: store_channel_frame)+

lemma foldl_store_channel_limit:
  "outputLimit s \<le> outputLimit (foldl (store_channel d) s is)"
proof (induction "is" arbitrary: s)
  case Nil
  show ?case by simp
next
  case (Cons i "is")
  have "outputLimit s \<le> outputLimit (store_channel d s i)"
    by (simp add: store_channel_limit)
  also have "\<dots> \<le> outputLimit (foldl (store_channel d) (store_channel d s i) is)"
    by (rule Cons.IH)
  finally show ?case by simp
qed

lemma store_sample_frame:
  "eegfilt (store_sample s d) = eegfilt s"
  "channelCount (store_sample s d) = channelCount s"
  "inputBufsize (store_sample s d) = inputBufsize s"
  "outputBufsize (store_sample s d) = outputBufsize s"
  "outputBlocksize (store_sample s d) = outputBlocksize s"
  "inputRate (store_sample s d) = inputRate s"
  "outputRate (store_sample s d) = outputRate s"
  "resampleRatio (store_sample s d) = resampleRatio s"
  "enableResample (store_sample s d) = enableResample s"
  "enableUpdate (store_sample s d) = enableUpdate s"
  "outputData (store_sample s d) = outputData s"
  "resampleState (store_sample s d) = resampleState s"
  "samplesReceived (store_sample s d) = samplesReceived s"
  "frames (inputData (store_sample s d)) = frames (inputData s) + 1"
  by (simp_all add: store_sample_def Let_def foldl_store_channel_frame)

lemma store_sample_limit: "outputLimit s \<le> outputLimit (store_sample s d)"
  by (simp add: store_sample_def Let_def foldl_store_channel_limit)

lemma pull_and_store_Inr:
  assumes "pull_and_store s rd = Inr s'"
  obtains d where "unicorn_pull_sample (fst rd) (snd rd) = Some d"
    and "s' = store_sample (s\<lparr>samplesReceived := samplesReceived s + 1\<rparr>) (lowpass s d)"
  using assms by (auto simp: pull_and_store_def split: option.splits)

lemma pull_and_store_frame:
  assumes "pull_and_store s rd = Inr s'"
  shows "eegfilt s' = eegfilt s"
  "channelCount s' = channelCount s"
  "inputBufsize s' = inputBufsize s"
  "outputBufsize s' = outputBufsize s"
  "outputBlocksize s' = outputBlocksize s"
  "inputRate s' = inputRate s"
  "outputRate s' = outputRate s"
  "resampleRatio s' = resampleRatio s"
  "enableResample s' = enableResample s"
  "enableUpdate s' = enableUpdate s"
  "outputData s' = outputData s"
  "resampleState s' = resampleState s"
  "samplesReceived s' = samplesReceived s + 1"
  "frames (inputData s') = frames (inputData s) + 1"
  using assms by (auto elim!: pull_and_store_Inr simp: store_sample_frame)

lemma pull_and_store_limit:
  assumes "pull_and_store s rd = Inr s'"
  shows "outputLimit s \<le> outputLimit s'"
  using assms store_sample_limit [of "s\<lparr>samplesReceived := samplesReceived s + 1\<rparr>"]
  by (auto elim!: pull_and_store_Inr)

lemma pull_and_store_good:
  assumes "unicorn_pull_sample (fst rd) (snd rd) \<noteq> None"
  shows "\<exists>s'. pull_and_store s rd = Inr s'"
  using assms by (auto simp: pull_and_store_def split: option.splits)

(* resample_buffers frame *)
lemma resample_buffers_frame:
  assumes "resample_buffers src s = Inr s'"
  shows "eegfilt s' = eegfilt s"
  "channelCount s' = channelCount s"
  "inputBufsize s' = inputBufsize s"
  "outputBufsize s' = outputBufsize s"
  "outputBlocksize s' = outputBlocksize s"
  "inputRate s' = inputRate s"
  "outputRate s' = outputRate s"
  "resampleRatio s' = resampleRatio s"
  "enableResample s' = enableResample s"
  "enableUpdate s' = enableUpdate s"
  "outputLimit s' = outputLimit s"
  "samplesReceived s' = samplesReceived s"
  using assms by (auto simp: resample_buffers_def Let_def split: if_splits)

lemma update_ratio_frame:
  "eegfilt (update_ratio s) = eegfilt s"
  "channelCount (update_ratio s) = channelCount s"
  "inputBufsize (update_ratio s) = inputBufsize s"
  "outputBufsize (update_ratio s) = outputBufsize s"
  "outputBlocksize (update_ratio s) = outputBlocksize s"
  "inputRate (update_ratio s) = inputRate s"
  "outputRate (update_ratio s) = outputRate s"
  "enableResample (update_ratio s) = enableResample s"
  "enableUpdate (update_ratio s) = enableUpdate s"
  "outputLimit (update_ratio s) = outputLimit s"
  "samplesReceived (update_ratio s) = samplesReceived s"
  "inputData (update_ratio s) = inputData s"
  "outputData (update_ratio s) = outputData s"
  "resampleState (update_ratio s) = resampleState s"
  by (simp_all add: update_ratio_def Let_def)


lemma foldl_maxf_ge: "L \<le> foldl (\<lambda>L v. maxf L \<bar>v\<bar>) L (xs::real list)"
proof (induction xs arbitrary: L)
  case Nil
  show ?case by simp
next
  case (Cons x xs)
  have "L \<le> maxf L \<bar>x\<bar>" by (simp add: maxf_max)
  also have "\<dots> \<le> foldl (\<lambda>L v. maxf L \<bar>v\<bar>) (maxf L \<bar>x\<bar>) xs" by (rule Cons.IH)
  finally show ?case by simp
qed

lemma foldl_maxf_Max:
  "foldl (\<lambda>L v. maxf L \<bar>v\<bar>) L (xs::real list) = Max (insert L (abs ` set xs))"
proof (induction xs arbitrary: L)
  case Nil
  show ?case by simp
next
  case (Cons x xs)
  have "Max (insert (maxf L \<bar>x\<bar>) (abs ` set xs)) = Max (insert L (insert \<bar>x\<bar> (abs ` set xs)))"
    by (cases "abs ` set xs = {}") (simp_all add: maxf_max max.assoc)
  then show ?case by (simp add: Cons.IH)
qed

lemma take_copied:
  "take n (map f [0..<n] @ replicate k (0::real)) = map f [0..<n]"
  by simp

lemma output_callback_unfold:
  "output_callback src s fc =
     (case (if enableResample s then resample_buffers src (drained s fc) else Inr (drained s fc)) of
        Inl e \<Rightarrow> Inl e
      | Inr s2 \<Rightarrow> Inr (played s fc, if enableUpdate s2 then update_ratio s2 else s2, paContinue))"
  unfolding output_callback_def drained_def played_def Let_def take_copied
  by simp

lemma drained_frame:
  "eegfilt (drained s fc) = eegfilt s"
  "channelCount (drained s fc) = channelCount s"
  "inputBufsize (drained s fc) = inputBufsize s"
  "outputBufsize (drained s fc) = outputBufsize s"
  "outputBlocksize (drained s fc) = outputBlocksize s"
  "inputRate (drained s fc) = inputRate s"
  "outputRate (drained s fc) = outputRate s"
  "resampleRatio (drained s fc) = resampleRatio s"
  "enableResample (drained s fc) = enableResample s"
  "enableUpdate (drained s fc) = enableUpdate s"
  "samplesReceived (drained s fc) = samplesReceived s"
  "inputData (drained s fc) = inputData s"
  "resampleState (drained s fc) = resampleState s"
  "frames (outputData (drained s fc)) = frames (outputData s) - min fc (frames (outputData s))"
  by (simp_all add: drained_def Let_def minf_min)

lemma drained_limit: "outputLimit s \<le> outputLimit (drained s fc)"
  by (simp add: drained_def Let_def foldl_maxf_ge)

lemma output_callback_Inr:
  assumes "output_callback src s fc = Inr (dest, s', rc)"
  obtains s2 where
    "(if enableResample s then resample_buffers src (drained s fc) else Inr (drained s fc)) = Inr s2"
    "dest = played s fc" "s' = (if enableUpdate s2 then update_ratio s2 else s2)" "rc = paContinue"
  using assms unfolding output_callback_unfold by (auto split: sum.splits)

lemma output_callback_frame:
  assumes "output_callback src s fc = Inr (dest, s', rc)"
  shows "eegfilt s' = eegfilt s"
  "channelCount s' = channelCount s"
  "inputBufsize s' = inputBufsize s"
  "outputBufsize s' = outputBufsize s"
  "outputBlocksize s' = outputBlocksize s"
  "inputRate s' = inputRate s"
  "outputRate s' = outputRate s"
  "enableResample s' = enableResample s"
  "enableUpdate s' = enableUpdate s"
  "samplesReceived s' = samplesReceived s"
proof -
  from assms obtain s2 where
    r: "(if enableResample s then resample_buffers src (drained s fc) else Inr (drained s fc)) = Inr s2"
    and s': "s' = (if enableUpdate s2 then update_ratio s2 else s2)"
    by (rule output_callback_Inr)
  have s2: "eegfilt s2 = eegfilt s \<and> channelCount s2 = channelCount s
    \<and> inputBufsize s2 = inputBufsize s \<and> outputBufsize s2 = outputBufsize s
    \<and> outputBlocksize s2 = outputBlocksize s \<and> inputRate s2 = inputRate s
    \<and> outputRate s2 = outputRate s \<and> enableResample s2 = enableResample s
    \<and> enableUpdate s2 = enableUpdate s \<and> samplesReceived s2 = samplesReceived s"
  proof (cases "enableResample s")
    case True
    with r have "resample_buffers src (drained s fc) = Inr s2" by simp
    from resample_buffers_frame [OF this] show ?thesis by (simp add: drained_frame)
  next
    case False
    with r have "s2 = drained s fc" by simp
    then show ?thesis by (simp add: drained_frame)
  qed
  show "eegfilt s' = eegfilt s"
  "channelCount s' = channelCount s"
  "inputBufsize s' = inputBufsize s"
  "outputBufsize s' = outputBufsize s"
  "outputBlocksize s' = outputBlocksize s"
  "inputRate s' = inputRate s"
  "outputRate s' = outputRate s"
  "enableResample s' = enableResample s"
  "enableUpdate s' = enableUpdate s"
  "samplesReceived s' = samplesReceived s"
    using s2 by (simp_all add: s' update_ratio_frame)
qed

lemma output_callback_limit:
  assumes "output_callback src s fc = Inr (dest, s', rc)"
  shows "outputLimit s \<le> outputLimit s'"
proof -
  from assms obtain s2 where
    r: "(if enableResample s then resample_buffers src (drained s fc) else Inr (drained s fc)) = Inr s2"
    and s': "s' = (if enableUpdate s2 then update_ratio s2 else s2)"
    by (rule output_callback_Inr)
  have "outputLimit s2 = outputLimit (drained s fc)"
  proof (cases "enableResample s")
    case True
    with r have "resample_buffers src (drained s fc) = Inr s2" by simp
    from resample_buffers_frame(11) [OF this] show ?thesis .
  next
    case False
    with r show ?thesis by simp
  qed
  then show ?thesis using drained_limit [of s fc] by (simp add: s' update_ratio_frame)
qed

subsection \<open>The two threads, step by step\<close>

lemma store_channel_locals:
  "producer (store_channel d s i) = producer s" "callback (store_channel d s i) = callback s"
  by (simp_all add: store_channel_def Let_def)

lemma foldl_store_channel_locals:
  "producer (foldl (store_channel d) s is) = producer s" "callback (foldl (store_channel d) s is) = callback s"
  by (induction "is" arbitrary: s; simp add: store_channel_locals)+

lemma pull_and_store_locals:
  assumes "pull_and_store s rd = Inr s'"
  shows "producer s' = producer s" "callback s' = callback s"
  using assms
  by (auto elim!: pull_and_store_Inr simp: store_sample_def Let_def foldl_store_channel_locals)

lemma resample_buffers_locals:
  assumes "resample_buffers src s = Inr s'"
  shows "producer s' = producer s" "callback s' = callback s"
  using assms by (auto simp: resample_buffers_def Let_def split: if_splits)

lemma update_ratio_locals: "producer (update_ratio s) = producer s" "callback (update_ratio s) = callback s"
  by (simp_all add: update_ratio_def Let_def)

lemma drained_locals: "producer (drained s fc) = producer s" "callback (drained s fc) = callback s"
  by (simp_all add: drained_def Let_def)

lemma output_callback_locals:
  assumes "output_callback src s fc = Inr (dest, s', rc)"
  shows "producer s' = producer s \<and> callback s' = callback s"
proof -
  from assms obtain s2 where
    r: "(if enableResample s then resample_buffers src (drained s fc) else Inr (drained s fc)) = Inr s2"
    and s': "s' = (if enableUpdate s2 then update_ratio s2 else s2)"
    by (rule output_callback_Inr)
  have "producer s2 = producer s \<and> callback s2 = callback s"
  proof (cases "enableResample s")
    case True
    with r have "resample_buffers src (drained s fc) = Inr s2" by simp
    from resample_buffers_locals [OF this] show ?thesis by (simp add: drained_locals)
  next
    case False
    with r have "s2 = drained s fc" by simp
    then show ?thesis by (simp add: drained_locals)
  qed
  then show ?thesis by (simp add: s' update_ratio_locals)
qed

lemma prod_start_Inr:
  assumes "prod_start s rd = Inr s'"
  obtains "ppc (producer s) \<noteq> PIdle" "s' = s"
  | d where "ppc (producer s) = PIdle" "unicorn_pull_sample (fst rd) (snd rd) = Some d"
      "s' = s\<lparr>samplesReceived := samplesReceived s + 1,
              producer := (producer s)\<lparr>psample := lowpass s d,
                ppc := (if 0 < channelCount s then PTest 0 else PEnd)\<rparr>\<rparr>"
  using assms by (auto simp: prod_start_def split: if_splits option.splits)

lemma prod_start_frame:
  assumes "prod_start s rd = Inr s'"
  shows "eegfilt s' = eegfilt s"
  "channelCount s' = channelCount s"
  "inputBufsize s' = inputBufsize s"
  "outputBufsize s' = outputBufsize s"
  "outputBlocksize s' = outputBlocksize s"
  "inputRate s' = inputRate s"
  "outputRate s' = outputRate s"
  "resampleRatio s' = resampleRatio s"
  "enableResample s' = enableResample s"
  "enableUpdate s' = enableUpdate s"
  "outputLimit s' = outputLimit s"
  "inputData s' = inputData s"
  "outputData s' = outputData s"
  "resampleState s' = resampleState s"
  "callback s' = callback s"
  "preg (producer s') = preg (producer s)"
  using assms by (auto elim!: prod_start_Inr)

lemma prod_step_frame:
  "eegfilt (prod_step s) = eegfilt s"
  "channelCount (prod_step s) = channelCount s"
  "inputBufsize (prod_step s) = inputBufsize s"
  "outputBufsize (prod_step s) = outputBufsize s"
  "outputBlocksize (prod_step s) = outputBlocksize s"
  "inputRate (prod_step s) = inputRate s"
  "outputRate (prod_step s) = outputRate s"
  "resampleRatio (prod_step s) = resampleRatio s"
  "enableResample (prod_step s) = enableResample s"
  "enableUpdate (prod_step s) = enableUpdate s"
  "samplesReceived (prod_step s) = samplesReceived s"
  "outputData (prod_step s) = outputData s"
  "resampleState (prod_step s) = resampleState s"
  "callback (prod_step s) = callback s"
  "psample (producer (prod_step s)) = psample (producer s)"
  by (simp_all add: prod_step_def split: ppc.splits)

lemma cb_start_frame:
  "eegfilt (cb_start s fc) = eegfilt s"
  "channelCount (cb_start s fc) = channelCount s"
  "inputBufsize (cb_start s fc) = inputBufsize s"
  "outputBufsize (cb_start s fc) = outputBufsize s"
  "outputBlocksize (cb_start s fc) = outputBlocksize s"
  "inputRate (cb_start s fc) = inputRate s"
  "outputRate (cb_start s fc) = outputRate s"
  "resampleRatio (cb_start s fc) = resampleRatio s"
  "enableResample (cb_start s fc) = enableResample s"
  "enableUpdate (cb_start s fc) = enableUpdate s"
  "samplesReceived (cb_start s fc) = samplesReceived s"
  "outputLimit (cb_start s fc) = outputLimit s"
  "inputData (cb_start s fc) = inputData s"
  "resampleState (cb_start s fc) = resampleState s"
  "producer (cb_start s fc) = producer s"
  "creg (callback (cb_start s fc)) = creg (callback s)"
  by (simp_all add: cb_start_def Let_def)

lemma cb_start_out_frames:
  "frames (outputData (cb_start s fc)) \<le> frames (outputData s)"
  by (simp add: cb_start_def Let_def)

lemma cb_step_Inr:
  assumes "cb_step src s = Inr s'"
  obtains "cpc (callback s) = CIdle" "s' = s"
  | j where "cpc (callback s) = CRead j"
      "s' = s\<lparr>callback := (callback s)\<lparr>creg := outputLimit s, cpc := CWrite j\<rparr>\<rparr>"
  | j where "cpc (callback s) = CWrite j"
      "s' = s\<lparr>outputLimit := creg (callback s),
              callback := (callback s)\<lparr>cpc := (if j + 1 < length (cdata (callback s)) then CTest (j + 1)
                                    else CFinish)\<rparr>\<rparr>"
  | s2 where "cpc (callback s) = CFinish"
      "(if enableResample s then resample_buffers src s else Inr s) = Inr s2"
      "s' = (if enableUpdate s2 then update_ratio s2 else s2)\<lparr>callback := (callback s)\<lparr>cpc := CIdle\<rparr>\<rparr>"
  | j where "cpc (callback s) = CTest j" "outputLimit s > \<bar>cdata (callback s) ! j\<bar>"
      "s' = s\<lparr>callback := (callback s)\<lparr>cpc := CRead j\<rparr>\<rparr>"
  | j where "cpc (callback s) = CTest j" "\<not> outputLimit s > \<bar>cdata (callback s) ! j\<bar>"
      "s' = s\<lparr>callback := (callback s)\<lparr>creg := \<bar>cdata (callback s) ! j\<bar>, cpc := CWrite j\<rparr>\<rparr>"
proof (cases "cpc (callback s)")
  case CIdle
  with assms have "s' = s" by (simp add: cb_step_def)
  with CIdle show ?thesis by (rule that(1))
next
  case (CRead j)
  with assms
  have "s' = s\<lparr>callback := (callback s)\<lparr>creg := outputLimit s, cpc := CWrite j\<rparr>\<rparr>"
    by (simp add: cb_step_def)
  with CRead show ?thesis by (rule that(2))
next
  case (CWrite j)
  with assms
  have "s' = s\<lparr>outputLimit := creg (callback s),
              callback := (callback s)\<lparr>cpc := (if j + 1 < length (cdata (callback s)) then CTest (j + 1)
                                    else CFinish)\<rparr>\<rparr>"
    by (simp add: cb_step_def del: if_split cong: if_cong)
  with CWrite show ?thesis by (rule that(3))
next
  case (CTest j)
  show ?thesis
  proof (cases "outputLimit s > \<bar>cdata (callback s) ! j\<bar>")
    case True
    with assms CTest have "s' = s\<lparr>callback := (callback s)\<lparr>cpc := CRead j\<rparr>\<rparr>"
      by (simp add: cb_step_def)
    with CTest True show ?thesis by (rule that(5))
  next
    case False
    with assms CTest
    have "s' = s\<lparr>callback := (callback s)\<lparr>creg := \<bar>cdata (callback s) ! j\<bar>, cpc := CWrite j\<rparr>\<rparr>"
      by (simp add: cb_step_def)
    with CTest False show ?thesis by (rule that(6))
  qed
next
  case CFinish
  show ?thesis
  proof (cases "if enableResample s then resample_buffers src s else Inr s")
    case (Inl e)
    have "cb_step src s = Inl e"
      unfolding cb_step_def CFinish cpc.case Inl sum.case ..
    with assms show ?thesis by simp
  next
    case (Inr s2)
    have "cb_step src s
      = Inr ((if enableUpdate s2 then update_ratio s2 else s2)\<lparr>callback := (callback s)\<lparr>cpc := CIdle\<rparr>\<rparr>)"
      unfolding cb_step_def CFinish cpc.case Inr sum.case ..
    with assms
    have "s' = (if enableUpdate s2 then update_ratio s2 else s2)\<lparr>callback := (callback s)\<lparr>cpc := CIdle\<rparr>\<rparr>"
      by (simp only: sum.inject)
    with CFinish Inr show ?thesis by (rule that(4))
  qed
qed

lemma finish_frame:
  assumes "(if enableResample s then resample_buffers src s else Inr s) = Inr s2"
  shows "eegfilt s2 = eegfilt s \<and> channelCount s2 = channelCount s
    \<and> inputBufsize s2 = inputBufsize s \<and> outputBufsize s2 = outputBufsize s
    \<and> outputBlocksize s2 = outputBlocksize s \<and> inputRate s2 = inputRate s
    \<and> outputRate s2 = outputRate s \<and> resampleRatio s2 = resampleRatio s
    \<and> enableResample s2 = enableResample s \<and> enableUpdate s2 = enableUpdate s
    \<and> outputLimit s2 = outputLimit s \<and> samplesReceived s2 = samplesReceived s
    \<and> producer s2 = producer s \<and> callback s2 = callback s"
proof (cases "enableResample s")
  case True
  with assms have r: "resample_buffers src s = Inr s2" by simp
  from resample_buffers_frame [OF r] resample_buffers_locals [OF r] show ?thesis by simp
next
  case False
  with assms show ?thesis by simp
qed

lemma cb_step_frame:
  assumes "cb_step src s = Inr s'"
  shows "eegfilt s' = eegfilt s"
  "channelCount s' = channelCount s"
  "inputBufsize s' = inputBufsize s"
  "outputBufsize s' = outputBufsize s"
  "outputBlocksize s' = outputBlocksize s"
  "inputRate s' = inputRate s"
  "outputRate s' = outputRate s"
  "enableResample s' = enableResample s"
  "enableUpdate s' = enableUpdate s"
  "samplesReceived s' = samplesReceived s"
  "producer s' = producer s"
proof -
  have "eegfilt s' = eegfilt s \<and> channelCount s' = channelCount s
    \<and> inputBufsize s' = inputBufsize s \<and> outputBufsize s' = outputBufsize s
    \<and> outputBlocksize s' = outputBlocksize s \<and> inputRate s' = inputRate s
    \<and> outputRate s' = outputRate s \<and> enableResample s' = enableResample s
    \<and> enableUpdate s' = enableUpdate s \<and> samplesReceived s' = samplesReceived s
    \<and> producer s' = producer s"
    using assms
  proof (cases rule: cb_step_Inr)
    case 1
    then show ?thesis by simp
  next
    case (2 j)
    then show ?thesis by simp
  next
    case (3 j)
    then show ?thesis by simp
  next
    case (4 s2)
    from finish_frame [OF 4(2)] show ?thesis
      by (simp add: 4(3) update_ratio_frame update_ratio_locals)
  next
    case (5 j)
    then show ?thesis by simp
  next
    case (6 j)
    then show ?thesis by simp
  qed
  then show "eegfilt s' = eegfilt s"
  "channelCount s' = channelCount s"
  "inputBufsize s' = inputBufsize s"
  "outputBufsize s' = outputBufsize s"
  "outputBlocksize s' = outputBlocksize s"
  "inputRate s' = inputRate s"
  "outputRate s' = outputRate s"
  "enableResample s' = enableResample s"
  "enableUpdate s' = enableUpdate s"
  "samplesReceived s' = samplesReceived s"
  "producer s' = producer s"
    by simp_all
qed

subsection \<open>Whole iterations and invocations as runs of single steps\<close>

text \<open>
  The events \<open>Pull\<close> and \<open>Callback\<close> add no behaviour to the single steps: from the
  thread's resting point, a producer iteration is \<open>ProdStart\<close> followed by some number of
  \<open>ProdStep\<close>, and a callback invocation is \<open>CbStart\<close> followed by some number of \<open>CbStep\<close>,
  with the same outcome up to the thread's own locals, and the same failure.
\<close>

lemma run_append:
  "run src s (evs @ evs') = (case run src s evs of Inl e \<Rightarrow> Inl e | Inr t \<Rightarrow> run src t evs')"
  by (induction evs arbitrary: s) (auto split: sum.splits)

lemma run_then:
  assumes "run src s evs = Inr t"
  shows "run src s (evs @ evs') = run src t evs'"
  by (simp add: run_append assms)

lemma run_replicate_add:
  assumes "run src s (replicate m ev) = Inr t" and "run src t (replicate n ev) = Inr u"
  shows "run src s (replicate (m + n) ev) = Inr u"
  using assms by (simp add: replicate_add run_append)

lemma store_channel_producer:
  "store_channel d (t\<lparr>producer := P\<rparr>) i = (store_channel d t i)\<lparr>producer := P\<rparr>"
  by (simp add: store_channel_def Let_def)

lemma prod_channel_steps:
  assumes "ppc (producer t) = PTest i"
  shows "\<exists>n u. run src t (replicate n ProdStep) = Inr u
           \<and> ppc (producer u) = (if i + 1 < channelCount t then PTest (i + 1) else PEnd)
           \<and> psample (producer u) = psample (producer t)
           \<and> u\<lparr>producer := P\<rparr> = store_channel (psample (producer t)) (t\<lparr>producer := P\<rparr>) i"
proof (cases "outputLimit t > \<bar>psample (producer t) ! i\<bar>")
  case True
  have "replicate 4 ProdStep = [ProdStep, ProdStep, ProdStep, ProdStep]"
    by (simp add: numeral_eq_Suc)
  with assms True show ?thesis
    by (intro exI [of _ 4]) (simp add: prod_step_def store_channel_def Let_def maxf_def)
next
  case False
  have "replicate 3 ProdStep = [ProdStep, ProdStep, ProdStep]"
    by (simp add: numeral_eq_Suc)
  with assms False show ?thesis
    by (intro exI [of _ 3]) (simp add: prod_step_def store_channel_def Let_def maxf_def)
qed

lemma prod_channels_steps:
  assumes "psample (producer t) = x" and "k \<le> channelCount t"
    and "ppc (producer t) = (if 0 < channelCount t then PTest 0 else PEnd)"
  shows "\<exists>n u. run src t (replicate n ProdStep) = Inr u
           \<and> ppc (producer u) = (if k < channelCount t then PTest k else PEnd)
           \<and> psample (producer u) = x
           \<and> u\<lparr>producer := P\<rparr> = foldl (store_channel x) (t\<lparr>producer := P\<rparr>) [0..<k]"
  using assms(2)
proof (induction k)
  case 0
  have "run src t (replicate 0 ProdStep) = Inr t" by simp
  with assms(1,3) show ?case by (intro exI [of _ 0] exI [of _ t]) simp
next
  case (Suc k)
  then have k: "k < channelCount t" by simp
  with Suc.IH obtain n u where a: "run src t (replicate n ProdStep) = Inr u"
    and b: "ppc (producer u) = PTest k" and c: "psample (producer u) = x"
    and d: "u\<lparr>producer := P\<rparr> = foldl (store_channel x) (t\<lparr>producer := P\<rparr>) [0..<k]"
    by auto
  have "channelCount (u\<lparr>producer := P\<rparr>) = channelCount (t\<lparr>producer := P\<rparr>)"
    unfolding d by (rule foldl_store_channel_frame)
  then have ch: "channelCount u = channelCount t" by simp
  from prod_channel_steps [OF b, of src P] obtain m v where
    e: "run src u (replicate m ProdStep) = Inr v"
    and f: "ppc (producer v) = (if k + 1 < channelCount u then PTest (k + 1) else PEnd)"
    and g: "psample (producer v) = psample (producer u)"
    and h: "v\<lparr>producer := P\<rparr> = store_channel (psample (producer u)) (u\<lparr>producer := P\<rparr>) k"
    by blast
  from run_replicate_add [OF a e] f g h show ?case
    by (intro exI [of _ "n + m"] exI [of _ v]) (simp add: c d ch)
qed

lemma pull_as_steps:
  assumes idle: "ppc (producer s) = PIdle" and p: "pull_and_store s rd = Inr s'"
  shows "\<exists>n t. run src s (ProdStart rd # replicate n ProdStep) = Inr t
           \<and> ppc (producer t) = PIdle \<and> t\<lparr>producer := producer s\<rparr> = s'"
proof -
  from p obtain d where d: "unicorn_pull_sample (fst rd) (snd rd) = Some d"
    and s': "s' = store_sample (s\<lparr>samplesReceived := samplesReceived s + 1\<rparr>) (lowpass s d)"
    by (rule pull_and_store_Inr)
  define s1 where "s1 = s\<lparr>samplesReceived := samplesReceived s + 1,
      producer := (producer s)\<lparr>psample := lowpass s d,
        ppc := (if 0 < channelCount s then PTest 0 else PEnd)\<rparr>\<rparr>"
  have start: "prod_start s rd = Inr s1"
    by (simp add: prod_start_def idle d s1_def)
  have 1: "psample (producer s1) = lowpass s d" "channelCount s1 = channelCount s"
    "ppc (producer s1) = (if 0 < channelCount s1 then PTest 0 else PEnd)"
    "s1\<lparr>producer := producer s\<rparr> = s\<lparr>samplesReceived := samplesReceived s + 1\<rparr>"
    by (simp_all add: s1_def)
  from prod_channels_steps [OF 1(1) order_refl 1(3), of src "producer s"]
  obtain n u where a: "run src s1 (replicate n ProdStep) = Inr u"
    and b: "ppc (producer u) = PEnd"
    and c: "u\<lparr>producer := producer s\<rparr>
        = foldl (store_channel (lowpass s d)) (s\<lparr>samplesReceived := samplesReceived s + 1\<rparr>)
            [0..<channelCount s]"
    by (auto simp: 1(2,4))
  have e: "run src u (replicate 1 ProdStep) = Inr (prod_step u)" by simp
  have "(prod_step u)\<lparr>producer := producer s\<rparr>
      = (u\<lparr>producer := producer s\<rparr>)\<lparr>inputData :=
          (inputData (u\<lparr>producer := producer s\<rparr>))\<lparr>frames := frames (inputData (u\<lparr>producer := producer s\<rparr>)) + 1\<rparr>\<rparr>"
    by (simp add: prod_step_def b)
  then have f: "(prod_step u)\<lparr>producer := producer s\<rparr> = s'"
    unfolding c s' by (simp add: store_sample_def Let_def)
  have g: "ppc (producer (prod_step u)) = PIdle" by (simp add: prod_step_def b)
  from run_replicate_add [OF a e] start f g show ?thesis
    by (intro exI [of _ "n + 1"] exI [of _ "prod_step u"]) simp
qed


lemma pull_fails_as_steps:
  assumes "ppc (producer s) = PIdle" and "pull_and_store s rd = Inl e"
  shows "run src s [ProdStart rd] = Inl e"
  using assms by (simp add: prod_start_def pull_and_store_def split: option.splits)

lemma cb_elem_steps:
  assumes "cpc (callback t) = CTest j"
  shows "\<exists>n u. run src t (replicate n CbStep) = Inr u
           \<and> cpc (callback u) = (if j + 1 < length (cdata (callback t)) then CTest (j + 1) else CFinish)
           \<and> cdata (callback u) = cdata (callback t)
           \<and> u\<lparr>callback := C\<rparr>
               = t\<lparr>outputLimit := maxf (outputLimit t) \<bar>cdata (callback t) ! j\<bar>, callback := C\<rparr>"
proof (cases "outputLimit t > \<bar>cdata (callback t) ! j\<bar>")
  case True
  have "replicate 3 CbStep = [CbStep, CbStep, CbStep]"
    by (simp add: numeral_eq_Suc)
  with assms True show ?thesis
    by (intro exI [of _ 3]) (simp add: cb_step_def maxf_def)
next
  case False
  have "replicate 2 CbStep = [CbStep, CbStep]"
    by (simp add: numeral_eq_Suc)
  with assms False show ?thesis
    by (intro exI [of _ 2]) (simp add: cb_step_def maxf_def)
qed

lemma cb_loop_steps:
  assumes "cdata (callback t) = xs" and "k \<le> length xs"
    and "cpc (callback t) = (if 0 < length xs then CTest 0 else CFinish)"
  shows "\<exists>n u. run src t (replicate n CbStep) = Inr u
           \<and> cpc (callback u) = (if k < length xs then CTest k else CFinish)
           \<and> cdata (callback u) = xs
           \<and> u\<lparr>callback := C\<rparr>
               = t\<lparr>outputLimit := foldl (\<lambda>L v. maxf L \<bar>v\<bar>) (outputLimit t) (take k xs),
                   callback := C\<rparr>"
  using assms(2)
proof (induction k)
  case 0
  have "run src t (replicate 0 CbStep) = Inr t" by simp
  with assms(1,3) show ?case by (intro exI [of _ 0] exI [of _ t]) simp
next
  case (Suc k)
  then have k: "k < length xs" by simp
  with Suc.IH obtain n u where a: "run src t (replicate n CbStep) = Inr u"
    and b: "cpc (callback u) = CTest k" and c: "cdata (callback u) = xs"
    and d: "u\<lparr>callback := C\<rparr>
               = t\<lparr>outputLimit := foldl (\<lambda>L v. maxf L \<bar>v\<bar>) (outputLimit t) (take k xs),
                   callback := C\<rparr>"
    by auto
  from d have "outputLimit (u\<lparr>callback := C\<rparr>)
      = outputLimit (t\<lparr>outputLimit := foldl (\<lambda>L v. maxf L \<bar>v\<bar>) (outputLimit t) (take k xs),
                   callback := C\<rparr>)"
    by simp
  then have L: "outputLimit u = foldl (\<lambda>L v. maxf L \<bar>v\<bar>) (outputLimit t) (take k xs)"
    by simp
  from cb_elem_steps [OF b, of src C] obtain m v where
    e: "run src u (replicate m CbStep) = Inr v"
    and f: "cpc (callback v) = (if k + 1 < length (cdata (callback u)) then CTest (k + 1) else CFinish)"
    and g: "cdata (callback v) = cdata (callback u)"
    and h: "v\<lparr>callback := C\<rparr>
        = u\<lparr>outputLimit := maxf (outputLimit u) \<bar>cdata (callback u) ! k\<bar>, callback := C\<rparr>"
    by blast
  have "u\<lparr>outputLimit := maxf (outputLimit u) \<bar>cdata (callback u) ! k\<bar>, callback := C\<rparr>
      = (u\<lparr>callback := C\<rparr>)\<lparr>outputLimit := maxf (outputLimit u) \<bar>cdata (callback u) ! k\<bar>\<rparr>"
    by simp
  also have "\<dots> = t\<lparr>outputLimit := foldl (\<lambda>L v. maxf L \<bar>v\<bar>) (outputLimit t) (take (Suc k) xs),
                   callback := C\<rparr>"
    unfolding d by (simp add: L c take_Suc_conv_app_nth [OF k])
  finally have i: "v\<lparr>callback := C\<rparr>
      = t\<lparr>outputLimit := foldl (\<lambda>L v. maxf L \<bar>v\<bar>) (outputLimit t) (take (Suc k) xs),
                   callback := C\<rparr>"
    using h by simp
  from run_replicate_add [OF a e] f g i show ?case
    by (intro exI [of _ "n + m"] exI [of _ v]) (simp add: c)
qed

lemma resample_buffers_callback:
  "resample_buffers src (t\<lparr>callback := C\<rparr>)
     = map_sum id (\<lambda>u. u\<lparr>callback := C\<rparr>) (resample_buffers src t)"
  by (simp add: resample_buffers_def Let_def)

lemma update_ratio_callback:
  "update_ratio (t\<lparr>callback := C\<rparr>) = (update_ratio t)\<lparr>callback := C\<rparr>"
  by (simp add: update_ratio_def Let_def)

lemma cb_loop_done:
  assumes "cpc (callback s) = CIdle"
  shows "\<exists>n u. run src s (CbStart fc # replicate n CbStep) = Inr u
           \<and> cpc (callback u) = CFinish
           \<and> u\<lparr>callback := callback s\<rparr> = drained s fc"
proof -
  define xs where "xs = map (data (outputData s))
      [0..<minf fc (frames (outputData s)) * channelCount s]"
  define t where "t = cb_start s fc"
  have 1: "cdata (callback t) = xs"
    "cpc (callback t) = (if 0 < length xs then CTest 0 else CFinish)"
    by (simp_all add: t_def cb_start_def assms Let_def xs_def)
  from cb_loop_steps [OF 1(1) order_refl 1(2), of src "callback s"]
  obtain n u where a: "run src t (replicate n CbStep) = Inr u"
    and b: "cpc (callback u) = CFinish"
    and c: "u\<lparr>callback := callback s\<rparr>
        = t\<lparr>outputLimit := foldl (\<lambda>L v. maxf L \<bar>v\<bar>) (outputLimit t) xs,
            callback := callback s\<rparr>"
    by auto
  have "t\<lparr>outputLimit := foldl (\<lambda>L v. maxf L \<bar>v\<bar>) (outputLimit t) xs,
            callback := callback s\<rparr> = drained s fc"
    by (simp add: t_def cb_start_def assms Let_def xs_def drained_def)
  with a b c show ?thesis
    by (intro exI [of _ n] exI [of _ u]) (simp add: t_def)
qed

lemma callback_as_steps:
  assumes idle: "cpc (callback s) = CIdle"
    and c: "output_callback src s fc = Inr (dest, s', rc)"
  shows "\<exists>n t. run src s (CbStart fc # replicate n CbStep) = Inr t
           \<and> cpc (callback t) = CIdle \<and> t\<lparr>callback := callback s\<rparr> = s'"
proof -
  from c obtain s2 where
    r: "(if enableResample s then resample_buffers src (drained s fc) else Inr (drained s fc)) = Inr s2"
    and s': "s' = (if enableUpdate s2 then update_ratio s2 else s2)"
    by (rule output_callback_Inr)
  from cb_loop_done [OF idle, of src fc] obtain n u where
    a: "run src s (CbStart fc # replicate n CbStep) = Inr u"
    and b: "cpc (callback u) = CFinish"
    and d: "u\<lparr>callback := callback s\<rparr> = drained s fc"
    by blast
  have u: "u = (drained s fc)\<lparr>callback := callback u\<rparr>"
    unfolding d [symmetric] by simp
  have en: "enableResample u = enableResample s"
    by (subst u) (simp add: drained_frame)
  have "(if enableResample u then resample_buffers src u else Inr u)
      = map_sum id (\<lambda>v. v\<lparr>callback := callback u\<rparr>)
          (if enableResample s then resample_buffers src (drained s fc) else Inr (drained s fc))"
    unfolding en by (subst (1 2) u) (simp add: resample_buffers_callback)
  then have fin: "(if enableResample u then resample_buffers src u else Inr u)
      = Inr (s2\<lparr>callback := callback u\<rparr>)"
    unfolding r by simp
  have step: "cb_step src u
      = Inr ((if enableUpdate s2 then update_ratio s2 else s2)\<lparr>callback := (callback u)\<lparr>cpc := CIdle\<rparr>\<rparr>)"
    unfolding cb_step_def b cpc.case fin sum.case
    by (simp add: update_ratio_callback)
  let ?t = "s'\<lparr>callback := (callback u)\<lparr>cpc := CIdle\<rparr>\<rparr>"
  have e: "run src u (replicate 1 CbStep) = Inr ?t"
    by (simp add: step s')
  have f: "run src s (CbStart fc # replicate (n + 1) CbStep) = Inr ?t"
  proof -
    have "CbStart fc # replicate (n + 1) CbStep
        = (CbStart fc # replicate n CbStep) @ replicate 1 CbStep"
      by (simp only: replicate_add append_Cons)
    then show ?thesis
      unfolding run_then [OF a] by (simp only: run_then [OF a] e)
  qed
  have "callback s' = callback s2"
    by (simp add: s' update_ratio_locals)
  moreover have "callback s2 = callback s"
  proof (cases "enableResample s")
    case True
    with r have "resample_buffers src (drained s fc) = Inr s2" by simp
    from resample_buffers_locals [OF this] show ?thesis by (simp add: drained_locals)
  next
    case False
    with r show ?thesis by (auto simp: drained_locals)
  qed
  ultimately have g: "?t\<lparr>callback := callback s\<rparr> = s'" by simp
  from f g show ?thesis
    by (intro exI [of _ "n + 1"] exI [of _ ?t]) simp
qed

lemma callback_fails_as_steps:
  assumes idle: "cpc (callback s) = CIdle"
    and c: "output_callback src s fc = Inl e"
  shows "\<exists>n. run src s (CbStart fc # replicate n CbStep) = Inl e"
proof -
  from c have r: "(if enableResample s then resample_buffers src (drained s fc)
      else Inr (drained s fc)) = Inl e"
    unfolding output_callback_unfold by (auto split: sum.splits if_splits)
  from cb_loop_done [OF idle, of src fc] obtain n u where
    a: "run src s (CbStart fc # replicate n CbStep) = Inr u"
    and b: "cpc (callback u) = CFinish"
    and d: "u\<lparr>callback := callback s\<rparr> = drained s fc"
    by blast
  have u: "u = (drained s fc)\<lparr>callback := callback u\<rparr>"
    unfolding d [symmetric] by simp
  have en: "enableResample u = enableResample s"
    by (subst u) (simp add: drained_frame)
  have "(if enableResample u then resample_buffers src u else Inr u)
      = map_sum id (\<lambda>v. v\<lparr>callback := callback u\<rparr>)
          (if enableResample s then resample_buffers src (drained s fc) else Inr (drained s fc))"
    unfolding en by (subst (1 2) u) (simp add: resample_buffers_callback)
  then have fin: "(if enableResample u then resample_buffers src u else Inr u) = Inl e"
    unfolding r by simp
  have step: "cb_step src u = Inl e"
    unfolding cb_step_def b cpc.case fin sum.case ..
  have "CbStart fc # replicate (n + 1) CbStep
      = (CbStart fc # replicate n CbStep) @ replicate 1 CbStep"
    by (simp only: replicate_add append_Cons)
  then have "run src s (CbStart fc # replicate (n + 1) CbStep) = Inl e"
    by (simp only: run_then [OF a]) (simp add: step)
  then show ?thesis ..
qed

subsection \<open>Concrete configurations and reads\<close>

lemma default_fields:
  "outputRate default_pipeline = 44100" "inputRate default_pipeline = 250"
  "outputBufsize default_pipeline = 88200" "outputBlocksize default_pipeline = 441"
  "inputBufsize default_pipeline = 500" "channelCount default_pipeline = 8"
  "outputLimit default_pipeline = 1" "samplesReceived default_pipeline = 0"
  "frames (inputData default_pipeline) = 0" "frames (outputData default_pipeline) = 0"
  "enableResample default_pipeline = False" "enableUpdate default_pipeline = False"
  by (simp_all add: default_pipeline_def init_pipeline_def FSAMPLE_def minf_def)

lemma default_locals:
  "ppc (producer default_pipeline) = PIdle" "cpc (callback default_pipeline) = CIdle"
  "producer default_pipeline = \<lparr>ppc = PIdle, preg = 0, psample = []\<rparr>"
  "callback default_pipeline = \<lparr>cpc = CIdle, creg = 0, cdata = []\<rparr>"
  "eegfilt default_pipeline = replicate 16 0"
  by (simp_all add: default_pipeline_def init_pipeline_def)

lemma small_fields:
  "outputRate small_pipeline = 44100" "inputRate small_pipeline = 250"
  "outputBufsize small_pipeline = 705" "outputBlocksize small_pipeline = 441"
  "inputBufsize small_pipeline = 4" "channelCount small_pipeline = 8"
  "outputLimit small_pipeline = 1" "samplesReceived small_pipeline = 0"
  "frames (inputData small_pipeline) = 0" "frames (outputData small_pipeline) = 0"
  "enableResample small_pipeline = False" "enableUpdate small_pipeline = False"
  "eegfilt small_pipeline = replicate 16 0"
  by (simp_all add: small_pipeline_def init_pipeline_def FSAMPLE_def minf_def)

lemma small_locals:
  "producer small_pipeline = \<lparr>ppc = PIdle, preg = 0, psample = []\<rparr>"
  "callback small_pipeline = \<lparr>cpc = CIdle, creg = 0, cdata = []\<rparr>"
  "data (inputData small_pipeline) = (\<lambda>_. 0)"
  "data (outputData small_pipeline) = (\<lambda>_. 0)"
  by (simp_all add: small_pipeline_def init_pipeline_def)

lemma decode_ch0_000: "unicorn_pull_sample 45 (frame_ch0 0 0 0) = Some [0, 0, 0, 0, 0, 0, 0, 0, 0, 0, 0, 0, 0, 0, 100, 0]"
  by (simp add: unicorn_pull_sample_def PACKETSIZE_def frame_ch0_def upt_rec eeg_uV_def eeg_val_def
     accel_g_def gyro_dps_def short_val_def battery_pct_def counter_val_def nth_append)

lemma decode_ch0_001: "unicorn_pull_sample 45 (frame_ch0 0 0 1) = Some [750000 / 8388607, 0, 0, 0, 0, 0, 0, 0, 0, 0, 0, 0, 0, 0, 100, 0]"
  by (simp add: unicorn_pull_sample_def PACKETSIZE_def frame_ch0_def upt_rec eeg_uV_def eeg_val_def
     accel_g_def gyro_dps_def short_val_def battery_pct_def counter_val_def nth_append)

lemma pull_read_ch0: "unicorn_pull_sample (fst (read_ch0 a b c)) (snd (read_ch0 a b c)) \<noteq> None"
  by (simp add: read_ch0_def pull_None_iff frame_ch0_def)


lemma decode_ch0_064:
  "unicorn_pull_sample (fst (read_ch0 0 0 0x64)) (snd (read_ch0 0 0 0x64))
     = Some [75000000 / 8388607, 0, 0, 0, 0, 0, 0, 0, 0, 0, 0, 0, 0, 0, 100, 0]"
  by (simp add: read_ch0_def unicorn_pull_sample_def PACKETSIZE_def frame_ch0_def upt_rec
      eeg_uV_def eeg_val_def accel_g_def gyro_dps_def short_val_def battery_pct_def
      counter_val_def nth_append)

lemma read_ch0_decode:
  "unicorn_pull_sample (fst (read_ch0 0 0 0)) (snd (read_ch0 0 0 0))
     = Some [0, 0, 0, 0, 0, 0, 0, 0, 0, 0, 0, 0, 0, 0, 100, 0]"
  "unicorn_pull_sample (fst (read_ch0 0 0 1)) (snd (read_ch0 0 0 1))
     = Some [750000 / 8388607, 0, 0, 0, 0, 0, 0, 0, 0, 0, 0, 0, 0, 0, 100, 0]"
  by (simp_all add: read_ch0_def decode_ch0_000 decode_ch0_001)

subsection \<open>Ratio controller: the branch taken above the upper thresholds\<close>

lemma update_ratio_above_high:
  assumes "real (frames (outputData s)) > 0.52 * real (outputBufsize s)"
  shows "resampleRatio (update_ratio s) =
     smooth (resampleRatio s)
       (maxf (minf (outputRate s / inputRate s
                + (0.5 * real (outputBufsize s) - real (frames (outputData s)))
                    / real (outputBlocksize s))
             (1.2 * (outputRate s / inputRate s))) (0.8 * (outputRate s / inputRate s)))
       (1 * BLOCKSIZE)"
  using assms by (simp add: update_ratio_def Let_def mult.commute)

text \<open>
  Claim C4 (fast smoothing above 0.60 of the capacity). The claim is that a fill above
  \<open>0.60 * capacity\<close> is smoothed with \<open>10 * BLOCKSIZE\<close>. In the code the test
  \<^verbatim>\<open>outputData.frames > high\<close> comes before \<^verbatim>\<open>outputData.frames > veryhigh\<close>, so every fill
  above \<open>0.52 * capacity\<close> takes the slow branch. With capacity 88200, block size 441,
  nominal ratio 176.4, current ratio 176.4 and fill 60000 (above 52920) the clamped
  estimate is 141.12 and the new ratio is \<open>0.99 * 176.4 + 0.01 * 141.12 = 176.0472\<close>,
  not \<open>0.9 * 176.4 + 0.1 * 141.12 = 172.872\<close>.
\<close>

theorem update_ratio_overfull_is_slow:
  "real (frames (outputData overfull_pipeline)) > 0.60 * real (outputBufsize overfull_pipeline)
   \<and> resampleRatio (update_ratio overfull_pipeline) = smooth 176.4 141.12 (1 * BLOCKSIZE)
   \<and> resampleRatio (update_ratio overfull_pipeline) = 176.0472
   \<and> smooth 176.4 141.12 (10 * BLOCKSIZE) = 172.872"
  by (simp add: update_ratio_def overfull_pipeline_def default_fields Let_def minf_def maxf_def
      smooth_def BLOCKSIZE_def)

theorem update_ratio_overfull_is_slow_witness:
  "resampleRatio (update_ratio overfull_pipeline) \<noteq> smooth 176.4 141.12 (10 * BLOCKSIZE)"
  using update_ratio_overfull_is_slow by simp

subsection \<open>The filter memory\<close>

lemma step_eegfilt:
  assumes "step src s ev = Inr s'"
  shows "eegfilt s' = eegfilt s"
proof (cases ev)
  case (Pull rd)
  with assms show ?thesis by (auto simp: pull_and_store_frame(1) split: if_splits)
next
  case (Callback fc)
  with assms show ?thesis by (auto simp: output_callback_frame(1) split: if_splits sum.splits)
next
  case (ProdStart rd)
  with assms show ?thesis by (simp add: prod_start_frame(1))
next
  case ProdStep
  with assms show ?thesis by (auto simp: prod_step_frame(1))
next
  case (CbStart fc)
  with assms show ?thesis by (auto simp: cb_start_frame(1))
next
  case CbStep
  with assms show ?thesis by (simp add: cb_step_frame(1))
qed

lemma run_eegfilt: "run src s evs = Inr s' \<Longrightarrow> eegfilt s' = eegfilt s"
proof (induction evs arbitrary: s)
  case Nil
  then show ?case by simp
next
  case (Cons ev evs)
  then obtain s1 where a: "step src s ev = Inr s1" and b: "run src s1 evs = Inr s'"
    by (auto split: sum.splits)
  from Cons.IH [OF b] step_eegfilt [OF a] show ?case by simp
qed

lemma fill_buffer_eegfilt: "fill_buffer s rds = Inr s' \<Longrightarrow> eegfilt s' = eegfilt s"
proof (induction rds arbitrary: s)
  case Nil
  then show ?case by (simp split: if_splits)
next
  case (Cons rd rds)
  show ?case
  proof (cases "samplesReceived s < inputBufsize s div 2")
    case True
    with Cons.prems obtain s1 where a: "pull_and_store s rd = Inr s1"
      and b: "fill_buffer s1 rds = Inr s'"
      by (auto split: sum.splits)
    from Cons.IH [OF b] pull_and_store_frame(1) [OF a] show ?thesis by simp
  next
    case False
    with Cons.prems show ?thesis by simp
  qed
qed

lemma start_running_frame:
  assumes "start_running src s = Inr s'"
  shows "eegfilt s' = eegfilt s" "outputLimit s' = outputLimit s"
    "inputData s' = inputData s" "outputData s' = outputData s"
    "inputBufsize s' = inputBufsize s" "outputBufsize s' = outputBufsize s"
    "channelCount s' = channelCount s" "outputBlocksize s' = outputBlocksize s"
    "inputRate s' = inputRate s" "outputRate s' = outputRate s"
    "resampleRatio s' = outputRate s / inputRate s"
    "enableResample s'" "enableUpdate s'" "samplesReceived s' = samplesReceived s"
  using assms by (auto simp: start_running_def Let_def split: if_splits)

lemma prime_first_frame:
  assumes "prime_first s rd = Inr s'"
  shows "outputLimit s' = outputLimit s"
    "inputData s' = inputData s" "outputData s' = outputData s"
    "inputBufsize s' = inputBufsize s" "outputBufsize s' = outputBufsize s"
    "channelCount s' = channelCount s" "outputBlocksize s' = outputBlocksize s"
    "inputRate s' = inputRate s" "outputRate s' = outputRate s"
    "resampleRatio s' = resampleRatio s"
    "enableResample s' = enableResample s" "enableUpdate s' = enableUpdate s"
    "samplesReceived s' = samplesReceived s"
  using assms by (auto simp: prime_first_def split: option.splits)

lemma prime_first_good:
  assumes "unicorn_pull_sample (fst rd) (snd rd) \<noteq> None"
  shows "\<exists>s'. prime_first s rd = Inr s'"
  using assms by (auto simp: prime_first_def split: option.splits)

lemma prime_first_locals:
  assumes "prime_first s rd = Inr s'"
  shows "producer s' = producer s" "callback s' = callback s"
  using assms by (auto simp: prime_first_def split: option.splits)

lemma start_running_locals:
  assumes "start_running src s = Inr s'"
  shows "producer s' = producer s" "callback s' = callback s"
  using assms by (auto simp: start_running_def Let_def split: if_splits)

lemma fill_buffer_locals:
  "fill_buffer s rds = Inr s' \<Longrightarrow> producer s' = producer s \<and> callback s' = callback s"
proof (induction rds arbitrary: s)
  case Nil
  then show ?case by (simp split: if_splits)
next
  case (Cons rd rds)
  show ?case
  proof (cases "samplesReceived s < inputBufsize s div 2")
    case True
    with Cons.prems obtain s1 where a: "pull_and_store s rd = Inr s1"
      and b: "fill_buffer s1 rds = Inr s'"
      by (auto split: sum.splits)
    from Cons.IH [OF b] pull_and_store_locals [OF a] show ?thesis by simp
  next
    case False
    with Cons.prems show ?thesis by simp
  qed
qed

lemma prime_first_eegfilt:
  assumes "prime_first s rd = Inr s1" and "unicorn_pull_sample (fst rd) (snd rd) = Some d"
    and "i < channelCount s" and "i < NCHAN"
  shows "eegfilt s1 ! i = d ! i"
  using assms by (auto simp: prime_first_def)

lemma baseline_demo_eval:
  "map_sum id (\<lambda>s. (eegfilt s ! 0, data (inputData s) 0, data (inputData s) 8, frames (inputData s))) baseline_demo
    = Inr (0, (1 - lambda) * (750000 / 8388607), (1 - lambda) * (750000 / 8388607), 2)"
  by (simp add: baseline_demo_def main_session_def prime_first_def read_ch0_decode small_fields
      NCHAN_def upt_rec pull_and_store_def lowpass_def store_sample_def store_channel_def
      Let_def maxf_def smooth_def lambda_def start_running_def copy_src_def)


text \<open>
  Claim C2 (the baseline follows the input). The baseline \<^verbatim>\<open>eegfilt\<close> is initialised to
  the first sample after the warmup, as claimed. The claim is further that it is updated by
  \<open>baseline = (1 - lambda) * baseline + lambda * x\<close> at every sample. The code computes
  \<^verbatim>\<open>smooth(eegfilt[i], eegdata[i], lambda)\<close> and subtracts it from \<^verbatim>\<open>eegdata[i]\<close>, but
  never assigns to \<^verbatim>\<open>eegfilt\<close> after the initialisation: no loop iteration and no run
  changes it. In the short session the baseline of channel 0 starts at 0, the input moves
  to 1 count (about 0.0894 microvolt), and the stored baseline is still 0 afterwards,
  where the recurrence gives \<open>lambda * x\<close>, which is not 0; both stored samples are
  \<open>(1 - lambda) * x\<close>.
\<close>

theorem baseline_never_updated:
  "(\<forall>(s::'r pipeline) rd s1 d i.
       prime_first s rd = Inr s1 \<and> unicorn_pull_sample (fst rd) (snd rd) = Some d
       \<and> i < channelCount s \<and> i < NCHAN \<longrightarrow> eegfilt s1 ! i = d ! i)
   \<and> (\<forall>(s::'r pipeline) rd s'. pull_and_store s rd = Inr s' \<longrightarrow> eegfilt s' = eegfilt s)
   \<and> (\<forall>(src::'r resampler) s evs s'. run src s evs = Inr s' \<longrightarrow> eegfilt s' = eegfilt s)
   \<and> map_sum id (\<lambda>s. (eegfilt s ! 0, data (inputData s) 0, data (inputData s) 8,
          frames (inputData s))) baseline_demo
       = Inr (0, (1 - lambda) * (750000 / 8388607), (1 - lambda) * (750000 / 8388607), 2)
   \<and> smooth 0 (750000 / 8388607) lambda \<noteq> 0"
proof (intro conjI allI impI)
  fix s :: "'r pipeline" and rd s1 d i
  assume "prime_first s rd = Inr s1 \<and> unicorn_pull_sample (fst rd) (snd rd) = Some d
       \<and> i < channelCount s \<and> i < NCHAN"
  then show "eegfilt s1 ! i = d ! i"
    by (elim conjE) (rule prime_first_eegfilt)
next
  fix s :: "'r pipeline" and rd s'
  assume "pull_and_store s rd = Inr s'"
  then show "eegfilt s' = eegfilt s" by (rule pull_and_store_frame(1))
next
  fix src :: "'r resampler" and s evs s'
  assume "run src s evs = Inr s'"
  then show "eegfilt s' = eegfilt s" by (rule run_eegfilt)
next
  show "map_sum id (\<lambda>s. (eegfilt s ! 0, data (inputData s) 0, data (inputData s) 8,
          frames (inputData s))) baseline_demo
       = Inr (0, (1 - lambda) * (750000 / 8388607), (1 - lambda) * (750000 / 8388607), 2)"
    by (rule baseline_demo_eval)
next
  show "smooth 0 (750000 / 8388607) lambda \<noteq> 0"
    by (simp add: smooth_def lambda_def)
qed

theorem baseline_never_updated_witness:
  "map_sum id (\<lambda>s. eegfilt s ! 0) baseline_demo = Inr 0"
proof -
  from baseline_never_updated [where ?'r = unit]
  have "map_sum id (\<lambda>s. (eegfilt s ! 0, data (inputData s) 0, data (inputData s) 8,
          frames (inputData s))) baseline_demo
       = Inr (0, (1 - lambda) * (750000 / 8388607), (1 - lambda) * (750000 / 8388607), 2)"
    by blast
  then have "map_sum id fst (map_sum id (\<lambda>s. (eegfilt s ! 0, data (inputData s) 0,
          data (inputData s) 8, frames (inputData s))) baseline_demo) = Inr 0"
    by simp
  then show ?thesis by (simp add: sum.map_comp o_def id_def)
qed

subsection \<open>The input buffer has no capacity check\<close>

lemma fill_buffer_good:
  assumes "unicorn_pull_sample (fst rd) (snd rd) \<noteq> None"
    and "samplesReceived s + n = inputBufsize s div 2"
  shows "\<exists>s'. fill_buffer s (replicate n rd) = Inr s'
           \<and> frames (inputData s') = frames (inputData s) + n
           \<and> inputBufsize s' = inputBufsize s"
  using assms(2)
proof (induction n arbitrary: s)
  case 0
  then show ?case by simp
next
  case (Suc n)
  from pull_and_store_good [OF assms(1)] obtain s1 where a: "pull_and_store s rd = Inr s1"
    by blast
  note f = pull_and_store_frame [OF a]
  from Suc.prems f have "samplesReceived s1 + n = inputBufsize s1 div 2" by simp
  from Suc.IH [OF this] obtain s' where
    "fill_buffer s1 (replicate n rd) = Inr s'"
    "frames (inputData s') = frames (inputData s1) + n" "inputBufsize s' = inputBufsize s1"
    by blast
  with Suc.prems a f show ?case by simp
qed

lemma run_pulls_good:
  assumes "unicorn_pull_sample (fst rd) (snd rd) \<noteq> None"
  shows "ppc (producer s) = PIdle \<Longrightarrow>
         \<exists>s'. run src s (replicate n (Pull rd)) = Inr s'
           \<and> frames (inputData s') = frames (inputData s) + n
           \<and> inputBufsize s' = inputBufsize s"
proof (induction n arbitrary: s)
  case 0
  show ?case by simp
next
  case (Suc n)
  from pull_and_store_good [OF assms(1)] obtain s1 where a: "pull_and_store s rd = Inr s1"
    by blast
  note f = pull_and_store_frame [OF a]
  have "ppc (producer s1) = PIdle" using Suc.prems pull_and_store_locals [OF a] by simp
  from Suc.IH [OF this] obtain s' where
    "run src s1 (replicate n (Pull rd)) = Inr s'"
    "frames (inputData s') = frames (inputData s1) + n" "inputBufsize s' = inputBufsize s1"
    by blast
  with a f Suc.prems show ?case by simp
qed

text \<open>
  Claim C3 (buffer bounds). The claim is that the input frame count never exceeds
  \<^verbatim>\<open>inputBufsize\<close>, also when pulls come without callbacks in between. The running loop
  stores at \<^verbatim>\<open>inputData.frames * channelCount + i\<close> and increments \<^verbatim>\<open>inputData.frames\<close>
  without comparing it with \<^verbatim>\<open>inputBufsize\<close>. With the default configuration
  (\<^verbatim>\<open>inputBufsize = 500\<close>) the priming loop leaves 250 frames; 251 further pulls with no
  callback in between leave a frame count of 501, the last frame written past the
  allocated block.
\<close>

theorem input_buffer_overrun:
  "map_sum id (\<lambda>s. (frames (inputData s), inputBufsize s))
     (main_session copy_src default_pipeline (read_ch0 0 0 1) (replicate 250 (read_ch0 0 0 1))
        (replicate 251 (Pull (read_ch0 0 0 1))))
   = Inr (501, 500)"
proof -
  let ?rd = "read_ch0 0 0 1"
  have good: "unicorn_pull_sample (fst ?rd) (snd ?rd) \<noteq> None" by (rule pull_read_ch0)
  from prime_first_good [OF good] obtain s1 where s1: "prime_first default_pipeline ?rd = Inr s1"
    by blast
  note f1 = prime_first_frame [OF s1]
  have "samplesReceived s1 + 250 = inputBufsize s1 div 2"
    by (simp add: f1 default_fields)
  from fill_buffer_good [OF good this] obtain s2 where
    s2: "fill_buffer s1 (replicate 250 ?rd) = Inr s2"
    and f2: "frames (inputData s2) = frames (inputData s1) + 250" "inputBufsize s2 = inputBufsize s1"
    by blast
  obtain s3 where s3: "start_running copy_src s2 = Inr s3"
    by (simp add: start_running_def copy_src_def)
  note f3 = start_running_frame [OF s3]
  have "ppc (producer s3) = PIdle"
    using start_running_locals [OF s3] fill_buffer_locals [OF s2] prime_first_locals [OF s1]
    by (simp add: default_locals)
  from run_pulls_good [OF good this, of copy_src 251] obtain s4 where
    s4: "run copy_src s3 (replicate 251 (Pull ?rd)) = Inr s4"
    and f4: "frames (inputData s4) = frames (inputData s3) + 251" "inputBufsize s4 = inputBufsize s3"
    by blast
  show ?thesis
    by (simp add: main_session_def s1 s2 s3 s4 f4 f3 f2 f1 default_fields)
qed

theorem input_buffer_overrun_witness:
  "isl (main_session copy_src default_pipeline (read_ch0 0 0 1) (replicate 250 (read_ch0 0 0 1))
        (replicate 251 (Pull (read_ch0 0 0 1)))) = False"
  using input_buffer_overrun by (auto simp: map_sum_def split: sum.splits)

subsection \<open>The running peak \<^verbatim>\<open>outputLimit\<close>\<close>

lemma step_uninterrupted_limit:
  assumes "uninterrupted ev" and "step src s ev = Inr s'"
  shows "outputLimit s \<le> outputLimit s'"
proof (cases ev)
  case (Pull rd)
  show ?thesis
  proof (cases "ppc (producer s) = PIdle")
    case True
    with assms(2) Pull show ?thesis by (simp add: pull_and_store_limit)
  next
    case False
    with assms(2) Pull show ?thesis by simp
  qed
next
  case (Callback fc)
  show ?thesis
  proof (cases "cpc (callback s) = CIdle")
    case True
    with assms(2) Callback obtain dest rc where "output_callback src s fc = Inr (dest, s', rc)"
      by (auto split: sum.splits)
    then show ?thesis by (rule output_callback_limit)
  next
    case False
    with assms(2) Callback show ?thesis by simp
  qed
qed (use assms(1) in simp_all)

lemma run_uninterrupted_limit:
  "\<forall>ev\<in>set evs. uninterrupted ev \<Longrightarrow> run src s evs = Inr s'
     \<Longrightarrow> outputLimit s \<le> outputLimit s'"
proof (induction evs arbitrary: s)
  case Nil
  then show ?case by simp
next
  case (Cons ev evs)
  from Cons.prems(2) obtain s1 where a: "step src s ev = Inr s1" and b: "run src s1 evs = Inr s'"
    by (auto split: sum.splits)
  from Cons.prems(1) have u: "uninterrupted ev" "\<forall>ev\<in>set evs. uninterrupted ev" by simp_all
  from step_uninterrupted_limit [OF u(1) a] Cons.IH [OF u(2) b] show ?case by simp
qed

lemma limit_inv_mono:
  assumes "limit_inv s" and "outputLimit s \<le> outputLimit s'"
    and "producer s' = producer s" and "callback s' = callback s"
  shows "limit_inv s'"
  using assms by (auto simp: limit_inv_def split: ppc.splits cpc.splits)

lemma prod_step_inv: "limit_inv s \<Longrightarrow> limit_inv (prod_step s)"
  by (cases "ppc (producer s)")
    (auto simp: limit_inv_def prod_step_def maxf_max split: cpc.splits)

lemma prod_start_inv: "limit_inv s \<Longrightarrow> prod_start s rd = Inr s' \<Longrightarrow> limit_inv s'"
  by (erule prod_start_Inr) (auto simp: limit_inv_def split: cpc.splits)

lemma cb_start_inv: "limit_inv s \<Longrightarrow> limit_inv (cb_start s fc)"
  by (auto simp: limit_inv_def cb_start_def Let_def split: ppc.splits)

lemma cb_step_inv:
  assumes "limit_inv s" and "cb_step src s = Inr s'"
  shows "limit_inv s'"
  using assms(2)
proof (cases rule: cb_step_Inr)
  case 1
  with assms(1) show ?thesis by simp
next
  case (2 j)
  with assms(1) show ?thesis by (auto simp: limit_inv_def split: ppc.splits)
next
  case (3 j)
  with assms(1) show ?thesis by (auto simp: limit_inv_def split: ppc.splits)
next
  case (4 s2)
  from finish_frame [OF 4(2)] assms(1) show ?thesis
    by (auto simp: 4(3) limit_inv_def update_ratio_frame update_ratio_locals
        split: ppc.splits)
next
  case (5 j)
  with assms(1) show ?thesis by (auto simp: limit_inv_def split: ppc.splits)
next
  case (6 j)
  with assms(1) show ?thesis by (auto simp: limit_inv_def split: ppc.splits)
qed

lemma step_inv:
  assumes "limit_inv s" and "step src s ev = Inr s'"
  shows "limit_inv s'"
proof (cases ev)
  case (Pull rd)
  show ?thesis
  proof (cases "ppc (producer s) = PIdle")
    case True
    with assms(2) Pull have p: "pull_and_store s rd = Inr s'" by simp
    from limit_inv_mono [OF assms(1) pull_and_store_limit [OF p] pull_and_store_locals [OF p]]
    show ?thesis .
  next
    case False
    with assms Pull show ?thesis by simp
  qed
next
  case (Callback fc)
  show ?thesis
  proof (cases "cpc (callback s) = CIdle")
    case True
    with assms(2) Callback obtain dest rc where c: "output_callback src s fc = Inr (dest, s', rc)"
      by (auto split: sum.splits)
    from output_callback_locals [OF c]
    have "producer s' = producer s" "callback s' = callback s" by simp_all
    from limit_inv_mono [OF assms(1) output_callback_limit [OF c] this] show ?thesis .
  next
    case False
    with assms Callback show ?thesis by simp
  qed
next
  case (ProdStart rd)
  with assms show ?thesis by (simp add: prod_start_inv)
next
  case ProdStep
  with assms show ?thesis by (auto simp: prod_step_inv)
next
  case (CbStart fc)
  with assms show ?thesis by (auto simp: cb_start_inv)
next
  case CbStep
  with assms show ?thesis by (simp add: cb_step_inv)
qed

lemma run_inv: "limit_inv s \<Longrightarrow> run src s evs = Inr s' \<Longrightarrow> limit_inv s'"
proof (induction evs arbitrary: s)
  case Nil
  then show ?case by simp
next
  case (Cons ev evs)
  from Cons.prems(2) obtain s1 where a: "step src s ev = Inr s1" and b: "run src s1 evs = Inr s'"
    by (auto split: sum.splits)
  from Cons.IH [OF step_inv [OF Cons.prems(1) a] b] show ?case .
qed

lemma fill_buffer_limit: "fill_buffer s rds = Inr s' \<Longrightarrow> outputLimit s \<le> outputLimit s'"
proof (induction rds arbitrary: s)
  case Nil
  then show ?case by (simp split: if_splits)
next
  case (Cons rd rds)
  show ?case
  proof (cases "samplesReceived s < inputBufsize s div 2")
    case True
    with Cons.prems obtain s1 where a: "pull_and_store s rd = Inr s1"
      and b: "fill_buffer s1 rds = Inr s'"
      by (auto split: sum.splits)
    from pull_and_store_limit [OF a] Cons.IH [OF b] show ?thesis by simp
  next
    case False
    with Cons.prems show ?thesis by simp
  qed
qed

lemma main_session_Inr:
  assumes "main_session src s0 rd0 rds evs = Inr sf"
  obtains s1 s2 s3 where "prime_first s0 rd0 = Inr s1" "fill_buffer s1 rds = Inr s2"
    "start_running src s2 = Inr s3" "run src s3 evs = Inr sf"
  using assms by (auto simp: main_session_def split: sum.splits)

lemma init_inv: "limit_inv (init_pipeline bufferSize blockSize rate maxch st filt)"
  by (simp add: limit_inv_def init_pipeline_def)

lemma priming_inv:
  assumes "limit_inv s0" and "prime_first s0 rd = Inr s1"
  shows "limit_inv s1"
  using limit_inv_mono [OF assms(1) _ prime_first_locals [OF assms(2)]]
    prime_first_frame(1) [OF assms(2)] by simp

lemma main_session_inv:
  assumes "limit_inv s0" and "main_session src s0 rd0 rds evs = Inr sf"
  shows "limit_inv sf"
proof -
  from assms(2) obtain s1 s2 s3 where a: "prime_first s0 rd0 = Inr s1"
    and b: "fill_buffer s1 rds = Inr s2"
    and c: "start_running src s2 = Inr s3" and d: "run src s3 evs = Inr sf"
    by (rule main_session_Inr)
  have 1: "limit_inv s1" by (rule priming_inv [OF assms(1) a])
  from fill_buffer_locals [OF b]
  have "producer s2 = producer s1" "callback s2 = callback s1" by simp_all
  from limit_inv_mono [OF 1 fill_buffer_limit [OF b] this] have 2: "limit_inv s2" .
  have "outputLimit s2 \<le> outputLimit s3" by (simp add: start_running_frame(2) [OF c])
  from limit_inv_mono [OF 2 this start_running_locals [OF c]] have "limit_inv s3" .
  from run_inv [OF this d] show ?thesis .
qed

lemma main_session_limit:
  assumes "main_session src (init_pipeline bufferSize blockSize rate maxch st filt)
             rd0 rds evs = Inr sf"
  shows "1 \<le> outputLimit sf"
  using main_session_inv [OF init_inv assms] by (simp add: limit_inv_def)

lemma init_limit: "outputLimit (init_pipeline bufferSize blockSize rate maxch st filt) = 1"
  by (simp add: init_pipeline_def)

lemma played_take:
  "take (min fc (frames (outputData s)) * channelCount s) (played s fc)
     = map (data (outputData s)) [0..<min fc (frames (outputData s)) * channelCount s]"
  by (simp add: played_def Let_def minf_min)

lemma output_callback_limit_eq:
  assumes "output_callback src s fc = Inr (dest, s', rc)"
  shows "outputLimit s' = Max (insert (outputLimit s)
           (abs ` set (take (min fc (frames (outputData s)) * channelCount s) dest)))"
proof -
  from assms obtain s2 where
    r: "(if enableResample s then resample_buffers src (drained s fc) else Inr (drained s fc)) = Inr s2"
    and d: "dest = played s fc"
    and s': "s' = (if enableUpdate s2 then update_ratio s2 else s2)"
    by (rule output_callback_Inr)
  have "outputLimit s2 = outputLimit (drained s fc)"
  proof (cases "enableResample s")
    case True
    with r have "resample_buffers src (drained s fc) = Inr s2" by simp
    from resample_buffers_frame(11) [OF this] show ?thesis .
  next
    case False
    with r show ?thesis by simp
  qed
  then have "outputLimit s' = outputLimit (drained s fc)"
    by (simp add: s' update_ratio_frame)
  also have "\<dots> = foldl (\<lambda>L v. maxf L \<bar>v\<bar>) (outputLimit s)
       (map (data (outputData s)) [0..<min fc (frames (outputData s)) * channelCount s])"
    by (simp add: drained_def Let_def minf_min)
  finally show ?thesis
    by (simp only: foldl_maxf_Max d played_take)
qed

text \<open>
  Claim C6 (\<^verbatim>\<open>outputLimit\<close> is at least 1 and never decreases). As stated for every point
  of a session, the monotonicity does not hold: the two threads update the plain global
  with no synchronisation, so an assignment by one thread that falls between a read and
  the assignment of the other's \<^verbatim>\<open>max\<close> is lost.

  In the short session (two primed frames with channel 0 at 1 count, callbacks for 441
  frames, the stand-in resampler) the first callback finds the output buffer empty and
  moves the two frames into it. The second callback copies them and, at its first float,
  compares (\<^verbatim>\<open>outputLimit = 1\<close> is larger) and reads \<^verbatim>\<open>outputLimit = 1\<close>. The producer
  then pulls a frame with channel 0 at 100 counts, compares and assigns \<^verbatim>\<open>outputLimit\<close>
  the magnitude, about 8.94. The callback then assigns the 1 it had read: \<^verbatim>\<open>outputLimit\<close>
  falls from about 8.94 to 1.
\<close>

theorem outputLimit_lost_update:
  "map_sum id outputLimit
     (main_session copy_src small_pipeline (read_ch0 0 0 0) [read_ch0 0 0 1, read_ch0 0 0 1]
        [CbStart 441, CbStep, CbStart 441, CbStep, CbStep,
         ProdStart (read_ch0 0 0 0x64), ProdStep, ProdStep])
     = Inr ((1 - lambda) * (75000000 / 8388607))
   \<and> map_sum id outputLimit
     (main_session copy_src small_pipeline (read_ch0 0 0 0) [read_ch0 0 0 1, read_ch0 0 0 1]
        [CbStart 441, CbStep, CbStart 441, CbStep, CbStep,
         ProdStart (read_ch0 0 0 0x64), ProdStep, ProdStep, CbStep])
     = Inr 1
   \<and> 1 < (1 - lambda) * (75000000 / 8388607)"
  by (simp add: main_session_def prime_first_def read_ch0_decode pull_read_ch0 decode_ch0_064
      small_fields small_locals
      NCHAN_def upt_rec pull_and_store_def lowpass_def store_sample_def store_channel_def
      Let_def maxf_def minf_def smooth_def lambda_def start_running_def copy_src_def
      cb_start_def cb_step_def prod_start_def prod_step_def resample_buffers_def
      update_ratio_frame update_ratio_locals write_block_def memcpy_store_def)

text \<open>
  Claim C6 as amended. \<^verbatim>\<open>outputLimit\<close> is 1 in the initial state and at least 1 at the end
  of every session, whatever the interleaving of the two threads, hence at every point of
  a session. One pass of the producer's inner loop that runs with no step of the callback
  in between replaces \<^verbatim>\<open>outputLimit\<close> by the maximum of its value and the magnitude of the
  sample. A producer iteration and a callback invocation that run with no step of the
  other thread in between leave \<^verbatim>\<open>outputLimit\<close> at least as large as before, the callback
  leaving the maximum of the old value and the magnitudes of the floats it copied; so do
  the priming loop, which runs before the audio stream is started, and every run made of
  such iterations and invocations.
\<close>

theorem outputLimit_at_least_one:
  fixes s :: "'r pipeline"
  shows "outputLimit (init_pipeline bufferSize blockSize rate maxch st filt) = 1
   \<and> (\<forall>(src::'r resampler) rd0 rds evs sf.
         main_session src (init_pipeline bufferSize blockSize rate maxch st filt) rd0 rds evs
           = Inr sf \<longrightarrow> 1 \<le> outputLimit sf)
   \<and> outputLimit (store_channel eegdata s i) = max (outputLimit s) \<bar>eegdata ! i\<bar>
   \<and> (\<forall>rd s'. pull_and_store s rd = Inr s' \<longrightarrow> outputLimit s \<le> outputLimit s')
   \<and> (\<forall>rds s'. fill_buffer s rds = Inr s' \<longrightarrow> outputLimit s \<le> outputLimit s')
   \<and> (\<forall>(src::'r resampler) fc dest s' rc.
         output_callback src s fc = Inr (dest, s', rc) \<longrightarrow>
         outputLimit s \<le> outputLimit s'
         \<and> outputLimit s' = Max (insert (outputLimit s)
              (abs ` set (take (min fc (frames (outputData s)) * channelCount s) dest))))
   \<and> (\<forall>(src::'r resampler) evs s'.
         (\<forall>ev\<in>set evs. uninterrupted ev) \<and> run src s evs = Inr s' \<longrightarrow>
         outputLimit s \<le> outputLimit s')"
proof (intro conjI allI impI)
  show "outputLimit (init_pipeline bufferSize blockSize rate maxch st filt) = 1"
    by (rule init_limit)
  show "1 \<le> outputLimit sf"
    if "main_session src (init_pipeline bufferSize blockSize rate maxch st filt) rd0 rds evs
           = Inr sf" for src :: "'r resampler" and rd0 rds evs sf
    using that by (rule main_session_limit)
  show "outputLimit (store_channel eegdata s i) = max (outputLimit s) \<bar>eegdata ! i\<bar>"
    by (rule store_channel_limit)
  show "outputLimit s \<le> outputLimit s'" if "pull_and_store s rd = Inr s'" for rd s'
    using that by (rule pull_and_store_limit)
  show "outputLimit s \<le> outputLimit s'" if "fill_buffer s rds = Inr s'" for rds s'
    using that by (rule fill_buffer_limit)
  show "outputLimit s \<le> outputLimit s'"
    if "output_callback src s fc = Inr (dest, s', rc)"
    for src :: "'r resampler" and fc dest s' rc
    using that by (rule output_callback_limit)
  show "outputLimit s' = Max (insert (outputLimit s)
              (abs ` set (take (min fc (frames (outputData s)) * channelCount s) dest)))"
    if "output_callback src s fc = Inr (dest, s', rc)"
    for src :: "'r resampler" and fc dest s' rc
    using that by (rule output_callback_limit_eq)
  show "outputLimit s \<le> outputLimit s'"
    if "(\<forall>ev\<in>set evs. uninterrupted ev) \<and> run src s evs = Inr s'"
    for src :: "'r resampler" and evs s'
    using that run_uninterrupted_limit by blast
qed

lemma map_sum_eq_InrD: "map_sum f g x = Inr y \<Longrightarrow> \<exists>z. x = Inr z \<and> g z = y"
  by (cases x) auto

theorem outputLimit_at_least_one_witness:
  "\<exists>sf. main_session copy_src (init_pipeline 0.016 0.01 44100 8 () (replicate 16 0))
           (read_ch0 0 0 0) [read_ch0 0 0 1, read_ch0 0 0 1] [] = Inr sf
        \<and> 1 \<le> outputLimit sf"
proof -
  obtain sf where sf: "baseline_demo = Inr sf"
    using map_sum_eq_InrD [OF baseline_demo_eval] by blast
  then have m: "main_session copy_src (init_pipeline 0.016 0.01 44100 8 () (replicate 16 0))
           (read_ch0 0 0 0) [read_ch0 0 0 1, read_ch0 0 0 1] [] = Inr sf"
    by (simp add: baseline_demo_def small_pipeline_def)
  from outputLimit_at_least_one [where ?'r = unit and bufferSize = "0.016"
      and blockSize = "0.01" and rate = 44100 and maxch = 8 and st = "()"
      and filt = "replicate 16 0", THEN conjunct2, THEN conjunct1, rule_format, OF m]
  have "1 \<le> outputLimit sf" .
  with m show ?thesis by blast
qed

subsection \<open>Samples stored by the producer\<close>

lemma unit_quotient: "0 < L \<Longrightarrow> \<bar>x / maxf L \<bar>x\<bar>\<bar> \<le> (1::real)"
  by (simp add: maxf_max)

text \<open>
  The quotient is stored in a \<^verbatim>\<open>float\<close>. The bound does not depend on exact division:
  any rounding that is monotone and leaves 1 and -1 alone keeps the stored value within
  the unit interval.
\<close>

lemma rounded_quotient_within_unit:
  fixes rnd :: "real \<Rightarrow> real"
  assumes "mono rnd" and "rnd 1 = 1" and "rnd (- 1) = - 1" and "0 < L"
  shows "\<bar>rnd (x / maxf L \<bar>x\<bar>)\<bar> \<le> 1"
proof -
  have "\<bar>x / maxf L \<bar>x\<bar>\<bar> \<le> 1" by (rule unit_quotient [OF assms(4)])
  then have "- 1 \<le> x / maxf L \<bar>x\<bar>" "x / maxf L \<bar>x\<bar> \<le> 1"
    unfolding abs_le_iff by linarith+
  with assms(1) have "rnd (- 1) \<le> rnd (x / maxf L \<bar>x\<bar>)" "rnd (x / maxf L \<bar>x\<bar>) \<le> rnd 1"
    by (auto dest: monoD)
  with assms(2,3) show ?thesis by (simp add: abs_le_iff)
qed













subsection \<open>The ratio controller stays within its clamp\<close>

lemma smooth_between:
  assumes "0 \<le> l" "l \<le> 1" "lo \<le> a" "a \<le> hi" "lo \<le> b" "b \<le> hi"
  shows "lo \<le> smooth a b l \<and> smooth a b l \<le> hi"
proof -
  have "(1 - l) * lo \<le> (1 - l) * a" "l * lo \<le> l * b"
    "(1 - l) * a \<le> (1 - l) * hi" "l * b \<le> l * hi"
    using assms by (simp_all add: mult_left_mono)
  then have "(1 - l) * lo + l * lo \<le> smooth a b l" "smooth a b l \<le> (1 - l) * hi + l * hi"
    unfolding smooth_def by linarith+
  then show ?thesis by (simp add: algebra_simps)
qed

lemma estimate_between:
  assumes "0 \<le> (n::real)"
  shows "0.8 * n \<le> maxf (minf e (1.2 * n)) (0.8 * n)"
    and "maxf (minf e (1.2 * n)) (0.8 * n) \<le> 1.2 * n"
  using assms by (simp_all add: maxf_max minf_min)

lemma update_ratio_bounds:
  assumes n: "0 \<le> outputRate s / inputRate s"
    and r: "0.8 * (outputRate s / inputRate s) \<le> resampleRatio s"
           "resampleRatio s \<le> 1.2 * (outputRate s / inputRate s)"
  shows "0.8 * (outputRate s / inputRate s) \<le> resampleRatio (update_ratio s)
         \<and> resampleRatio (update_ratio s) \<le> 1.2 * (outputRate s / inputRate s)"
proof -
  let ?n = "outputRate s / inputRate s"
  let ?e = "maxf (minf (?n + (0.5 * real (outputBufsize s) - real (frames (outputData s)))
                 / real (outputBlocksize s)) (1.2 * ?n)) (0.8 * ?n)"
  have fast: "(0::real) \<le> 10 * BLOCKSIZE" "10 * BLOCKSIZE \<le> (1::real)"
    and slow: "(0::real) \<le> 1 * BLOCKSIZE" "1 * BLOCKSIZE \<le> (1::real)"
    by (simp_all add: BLOCKSIZE_def)
  have nom: "0.8 * ?n \<le> ?n" "?n \<le> 1.2 * ?n" using n by simp_all
  note e = estimate_between [OF n]
  have "resampleRatio (update_ratio s) = smooth (resampleRatio s) ?e (10 * BLOCKSIZE)
      \<or> resampleRatio (update_ratio s) = smooth (resampleRatio s) ?e (1 * BLOCKSIZE)
      \<or> resampleRatio (update_ratio s) = smooth (resampleRatio s) ?n (10 * BLOCKSIZE)"
    by (simp add: update_ratio_def Let_def mult.commute)
  then show ?thesis
    using smooth_between [OF fast r e] smooth_between [OF slow r e] smooth_between [OF fast r nom]
    by auto
qed

lemma output_callback_ratio:
  assumes callback: "output_callback src s fc = Inr (dest, s', rc)"
    and n: "0 \<le> outputRate s / inputRate s"
    and r: "0.8 * (outputRate s / inputRate s) \<le> resampleRatio s"
           "resampleRatio s \<le> 1.2 * (outputRate s / inputRate s)"
  shows "0.8 * (outputRate s / inputRate s) \<le> resampleRatio s'
         \<and> resampleRatio s' \<le> 1.2 * (outputRate s / inputRate s)"
proof -
  from callback obtain s2 where
    rs: "(if enableResample s then resample_buffers src (drained s fc) else Inr (drained s fc)) = Inr s2"
    and s': "s' = (if enableUpdate s2 then update_ratio s2 else s2)"
    by (rule output_callback_Inr)
  have s2: "resampleRatio s2 = resampleRatio s \<and> outputRate s2 = outputRate s
     \<and> inputRate s2 = inputRate s"
  proof (cases "enableResample s")
    case True
    with rs have "resample_buffers src (drained s fc) = Inr s2" by simp
    from resample_buffers_frame [OF this] show ?thesis by (simp add: drained_frame)
  next
    case False
    with rs have "s2 = drained s fc" by simp
    then show ?thesis by (simp add: drained_frame)
  qed
  show ?thesis
  proof (cases "enableUpdate s2")
    case True
    with update_ratio_bounds [of s2] n r s2 show ?thesis by (simp add: s')
  next
    case False
    with r s2 show ?thesis by (simp add: s')
  qed
qed

lemma cb_step_ratio:
  assumes c: "cb_step src s = Inr s'"
    and n: "0 \<le> outputRate s / inputRate s"
    and r: "0.8 * (outputRate s / inputRate s) \<le> resampleRatio s"
           "resampleRatio s \<le> 1.2 * (outputRate s / inputRate s)"
  shows "0.8 * (outputRate s / inputRate s) \<le> resampleRatio s'
         \<and> resampleRatio s' \<le> 1.2 * (outputRate s / inputRate s)"
  using c
proof (cases rule: cb_step_Inr)
  case 1
  with r show ?thesis by simp
next
  case (2 j)
  with r show ?thesis by simp
next
  case (3 j)
  with r show ?thesis by simp
next
  case (4 s2)
  note f = finish_frame [OF 4(2)]
  show ?thesis
  proof (cases "enableUpdate s2")
    case True
    with update_ratio_bounds [of s2] n r f show ?thesis by (simp add: 4(3))
  next
    case False
    with r f show ?thesis by (simp add: 4(3))
  qed
next
  case (5 j)
  with r show ?thesis by simp
next
  case (6 j)
  with r show ?thesis by simp
qed

lemma step_ratio:
  assumes st: "step src s ev = Inr s'"
    and n: "0 \<le> outputRate s / inputRate s"
    and r: "0.8 * (outputRate s / inputRate s) \<le> resampleRatio s"
           "resampleRatio s \<le> 1.2 * (outputRate s / inputRate s)"
  shows "outputRate s' = outputRate s \<and> inputRate s' = inputRate s
         \<and> 0.8 * (outputRate s / inputRate s) \<le> resampleRatio s'
         \<and> resampleRatio s' \<le> 1.2 * (outputRate s / inputRate s)"
proof (cases ev)
  case (Pull rd)
  show ?thesis
  proof (cases "ppc (producer s) = PIdle")
    case True
    with st Pull have "pull_and_store s rd = Inr s'" by simp
    from pull_and_store_frame [OF this] r show ?thesis by simp
  next
    case False
    with st Pull r show ?thesis by simp
  qed
next
  case (Callback fc)
  show ?thesis
  proof (cases "cpc (callback s) = CIdle")
    case True
    with st Callback obtain dest rc where c: "output_callback src s fc = Inr (dest, s', rc)"
      by (auto split: sum.splits)
    from output_callback_ratio [OF c n r] output_callback_frame [OF c] show ?thesis by simp
  next
    case False
    with st Callback r show ?thesis by simp
  qed
next
  case (ProdStart rd)
  with st have "prod_start s rd = Inr s'" by simp
  from prod_start_frame [OF this] r show ?thesis by simp
next
  case ProdStep
  with st have "s' = prod_step s" by simp
  with r show ?thesis by (simp add: prod_step_frame)
next
  case (CbStart fc)
  with st have "s' = cb_start s fc" by simp
  with r show ?thesis by (simp add: cb_start_frame)
next
  case CbStep
  with st have c: "cb_step src s = Inr s'" by simp
  from cb_step_ratio [OF c n r] cb_step_frame [OF c] show ?thesis by simp
qed

lemma run_ratio:
  assumes "run src s evs = Inr s'"
    and "0 \<le> outputRate s / inputRate s"
    and "0.8 * (outputRate s / inputRate s) \<le> resampleRatio s"
    and "resampleRatio s \<le> 1.2 * (outputRate s / inputRate s)"
  shows "0.8 * (outputRate s / inputRate s) \<le> resampleRatio s'
         \<and> resampleRatio s' \<le> 1.2 * (outputRate s / inputRate s)"
  using assms
proof (induction evs arbitrary: s)
  case Nil
  then show ?case by simp
next
  case (Cons ev evs)
  from Cons.prems(1) obtain s1 where a: "step src s ev = Inr s1" and b: "run src s1 evs = Inr s'"
    by (auto split: sum.splits)
  from step_ratio [OF a Cons.prems(2-4)]
  have *: "outputRate s1 = outputRate s" "inputRate s1 = inputRate s"
    "0.8 * (outputRate s / inputRate s) \<le> resampleRatio s1"
    "resampleRatio s1 \<le> 1.2 * (outputRate s / inputRate s)"
    by simp_all
  from Cons.IH [OF b] * Cons.prems(2) show ?case by simp
qed

text \<open>
  Claim C5 (ratio bounds). For a non-negative output rate and a positive input rate, once
  \<^verbatim>\<open>resampleRatio\<close> has been set to \<open>nominal = outputRate / inputRate\<close> at the end of
  priming, it lies between \<open>0.8 * nominal\<close> and \<open>1.2 * nominal\<close> after every run of
  pulls and callbacks, whatever the resampler does to the fill levels; and a single call of
  \<^verbatim>\<open>update_ratio\<close> keeps the ratio in that range from any state, hence for any fill.
  Arithmetic is exact here: the rounding of the \<^verbatim>\<open>float\<close> operations is not modelled.
\<close>

theorem ratio_stays_within_bounds:
  assumes "0 \<le> outputRate s" and "0 < inputRate s"
    and "start_running src s = Inr s1" and "run src s1 evs = Inr s2"
  shows "resampleRatio s1 = outputRate s / inputRate s
         \<and> 0.8 * (outputRate s / inputRate s) \<le> resampleRatio s2
         \<and> resampleRatio s2 \<le> 1.2 * (outputRate s / inputRate s)
         \<and> (\<forall>t::'r pipeline.
               0 \<le> outputRate t / inputRate t
               \<and> 0.8 * (outputRate t / inputRate t) \<le> resampleRatio t
               \<and> resampleRatio t \<le> 1.2 * (outputRate t / inputRate t)
               \<longrightarrow> 0.8 * (outputRate t / inputRate t) \<le> resampleRatio (update_ratio t)
                   \<and> resampleRatio (update_ratio t) \<le> 1.2 * (outputRate t / inputRate t))"
proof -
  note f = start_running_frame [OF assms(3)]
  have n: "0 \<le> outputRate s1 / inputRate s1" using assms(1,2) by (simp add: f)
  have "0.8 * (outputRate s1 / inputRate s1) \<le> resampleRatio s1"
    "resampleRatio s1 \<le> 1.2 * (outputRate s1 / inputRate s1)"
    using n by (simp_all add: f)
  from run_ratio [OF assms(4) n this]
  have b: "0.8 * (outputRate s / inputRate s) \<le> resampleRatio s2"
    and c: "resampleRatio s2 \<le> 1.2 * (outputRate s / inputRate s)"
    by (simp_all add: f)
  have a: "resampleRatio s1 = outputRate s / inputRate s" by (rule f(11))
  have d: "\<forall>t::'r pipeline.
               0 \<le> outputRate t / inputRate t
               \<and> 0.8 * (outputRate t / inputRate t) \<le> resampleRatio t
               \<and> resampleRatio t \<le> 1.2 * (outputRate t / inputRate t)
               \<longrightarrow> 0.8 * (outputRate t / inputRate t) \<le> resampleRatio (update_ratio t)
                   \<and> resampleRatio (update_ratio t) \<le> 1.2 * (outputRate t / inputRate t)"
    using update_ratio_bounds by blast
  from a b c d show ?thesis by blast
qed

lemma copy_src_callback_ok:
  "\<exists>dest s' rc. output_callback copy_src s fc = Inr (dest, s', rc)"
  by (simp add: output_callback_unfold resample_buffers_def copy_src_def Let_def)

theorem ratio_stays_within_bounds_witness:
  "\<exists>s1 s2. start_running copy_src default_pipeline = Inr s1
      \<and> run copy_src s1 [Callback 441, Pull (read_ch0 0 0 1), Callback 441] = Inr s2
      \<and> resampleRatio s1 = 44100 / 250
      \<and> 0.8 * (44100 / 250) \<le> resampleRatio s2 \<and> resampleRatio s2 \<le> 1.2 * (44100 / 250)"
proof -
  obtain s1 where s1: "start_running copy_src default_pipeline = Inr s1"
    by (simp add: start_running_def copy_src_def)
  obtain d1 t1 c1 where t1: "output_callback copy_src s1 441 = Inr (d1, t1, c1)"
    using copy_src_callback_ok by blast
  obtain t2 where t2: "pull_and_store t1 (read_ch0 0 0 1) = Inr t2"
    using pull_and_store_good [OF pull_read_ch0] by blast
  obtain d3 t3 c3 where t3: "output_callback copy_src t2 441 = Inr (d3, t3, c3)"
    using copy_src_callback_ok by blast
  have l1: "ppc (producer s1) = PIdle" "cpc (callback s1) = CIdle"
    using start_running_locals [OF s1] by (simp_all add: default_locals)
  have l2: "ppc (producer t1) = PIdle" "cpc (callback t1) = CIdle"
    using output_callback_locals [OF t1] l1 by simp_all
  have l3: "cpc (callback t2) = CIdle"
    using pull_and_store_locals [OF t2] l2 by simp
  have r: "run copy_src s1 [Callback 441, Pull (read_ch0 0 0 1), Callback 441] = Inr t3"
    by (simp add: t1 t2 t3 l1 l2 l3)
  have "(0::real) \<le> outputRate default_pipeline" "0 < inputRate default_pipeline"
    by (simp_all add: default_fields)
  from ratio_stays_within_bounds [OF this s1 r]
  have "resampleRatio s1 = outputRate default_pipeline / inputRate default_pipeline
      \<and> 0.8 * (outputRate default_pipeline / inputRate default_pipeline) \<le> resampleRatio t3
      \<and> resampleRatio t3 \<le> 1.2 * (outputRate default_pipeline / inputRate default_pipeline)"
    by blast
  then have "resampleRatio s1 = 44100 / 250
      \<and> 0.8 * (44100 / 250) \<le> resampleRatio t3 \<and> resampleRatio t3 \<le> 1.2 * (44100 / 250)"
    by (simp only: default_fields)
  with s1 r show ?thesis by blast
qed


subsection \<open>The audio callback\<close>



lemma resample_buffers_noop:
  "frames (inputData s) = 0 \<or> frames (outputData s) = outputBufsize s
     \<Longrightarrow> resample_buffers src s = Inr s"
  by (auto simp: resample_buffers_def Let_def)

lemma resample_buffers_Inr:
  assumes "resample_buffers src s = Inr s'"
    and "frames (inputData s) \<noteq> 0" and "frames (outputData s) \<noteq> outputBufsize s"
  defines "r \<equiv> src_process src (resampleState s) (resampleRatio s) (channelCount s)
     (map (data (inputData s)) [0..<frames (inputData s) * channelCount s])
     (frames (inputData s)) (outputBufsize s - frames (outputData s))"
  shows "src_error r = 0"
    and "s' = s\<lparr>
      outputData := \<lparr>data = write_block (data (outputData s))
                               (frames (outputData s) * channelCount s) (data_out r),
                      frames = frames (outputData s) + output_frames_gen r\<rparr>,
      inputData := \<lparr>data = memcpy_store (data (inputData s)) 0
                              (input_frames_used r * channelCount s)
                              ((frames (inputData s) - input_frames_used r) * channelCount s),
                     frames = frames (inputData s) - input_frames_used r\<rparr>,
      resampleState := src_state r\<rparr>"
  using assms(1-3) unfolding r_def
  by (auto simp: resample_buffers_def Let_def split: if_splits)









subsection \<open>\<^verbatim>\<open>resample_buffers\<close>\<close>




subsection \<open>The output buffer stays within its capacity\<close>

text \<open>
  The part of the buffer bound that the code does keep: \<^verbatim>\<open>resample_buffers\<close> offers the
  resampler only the free room of the output buffer, so for a resampler that keeps its
  contract the output frame count never exceeds \<^verbatim>\<open>outputBufsize\<close>.
\<close>

lemma resample_buffers_out_bound:
  assumes "src_contract src" and "frames (outputData s) \<le> outputBufsize s"
    and "resample_buffers src s = Inr s'"
  shows "frames (outputData s') \<le> outputBufsize s'"
proof (cases "frames (inputData s) = 0 \<or> frames (outputData s) = outputBufsize s")
  case True
  from resample_buffers_noop [OF this, of src] assms(2,3) show ?thesis by simp
next
  case False
  then have ne: "frames (inputData s) \<noteq> 0" "frames (outputData s) \<noteq> outputBufsize s"
    by simp_all
  note ok = resample_buffers_Inr [OF assms(3) ne]
  note c = assms(1) [unfolded src_contract_def, rule_format, OF ok(1)]
  from c have "frames (outputData s') \<le> frames (outputData s)
      + (outputBufsize s - frames (outputData s))"
    by (simp add: ok(2))
  with assms(2) show ?thesis by (simp add: ok(2))
qed

lemma output_callback_out_bound:
  assumes con: "src_contract src" and le: "frames (outputData s) \<le> outputBufsize s"
    and callback: "output_callback src s fc = Inr (dest, s', rc)"
  shows "frames (outputData s') \<le> outputBufsize s'"
proof -
  from callback obtain s2 where
    rs: "(if enableResample s then resample_buffers src (drained s fc) else Inr (drained s fc)) = Inr s2"
    and s': "s' = (if enableUpdate s2 then update_ratio s2 else s2)"
    by (rule output_callback_Inr)
  have d: "frames (outputData (drained s fc)) \<le> outputBufsize (drained s fc)"
    using le by (simp add: drained_frame)
  have "frames (outputData s2) \<le> outputBufsize s2"
  proof (cases "enableResample s")
    case True
    with rs have "resample_buffers src (drained s fc) = Inr s2" by simp
    from resample_buffers_out_bound [OF con d this] show ?thesis .
  next
    case False
    with rs d show ?thesis by simp
  qed
  then show ?thesis by (simp add: s' update_ratio_frame)
qed

lemma cb_step_out_bound:
  assumes con: "src_contract src" and le: "frames (outputData s) \<le> outputBufsize s"
    and c: "cb_step src s = Inr s'"
  shows "frames (outputData s') \<le> outputBufsize s'"
  using c
proof (cases rule: cb_step_Inr)
  case 1
  with le show ?thesis by simp
next
  case (2 j)
  with le show ?thesis by simp
next
  case (3 j)
  with le show ?thesis by simp
next
  case (4 s2)
  have "frames (outputData s2) \<le> outputBufsize s2"
  proof (cases "enableResample s")
    case True
    with 4(2) have "resample_buffers src s = Inr s2" by simp
    from resample_buffers_out_bound [OF con le this] show ?thesis .
  next
    case False
    with 4(2) le show ?thesis by simp
  qed
  then show ?thesis by (simp add: 4(3) update_ratio_frame)
next
  case (5 j)
  with le show ?thesis by simp
next
  case (6 j)
  with le show ?thesis by simp
qed

lemma step_out_bound:
  assumes con: "src_contract src" and le: "frames (outputData s) \<le> outputBufsize s"
    and st: "step src s ev = Inr s'"
  shows "frames (outputData s') \<le> outputBufsize s'"
proof (cases ev)
  case (Pull rd)
  show ?thesis
  proof (cases "ppc (producer s) = PIdle")
    case True
    with st Pull have "pull_and_store s rd = Inr s'" by simp
    from pull_and_store_frame [OF this] le show ?thesis by simp
  next
    case False
    with st Pull le show ?thesis by simp
  qed
next
  case (Callback fc)
  show ?thesis
  proof (cases "cpc (callback s) = CIdle")
    case True
    with st Callback obtain dest rc where "output_callback src s fc = Inr (dest, s', rc)"
      by (auto split: sum.splits)
    from output_callback_out_bound [OF con le this] show ?thesis .
  next
    case False
    with st Callback le show ?thesis by simp
  qed
next
  case (ProdStart rd)
  with st have "prod_start s rd = Inr s'" by simp
  from prod_start_frame [OF this] le show ?thesis by simp
next
  case ProdStep
  with st have "s' = prod_step s" by simp
  with le show ?thesis by (simp add: prod_step_frame)
next
  case (CbStart fc)
  with st have "s' = cb_start s fc" by simp
  with le cb_start_out_frames [of s fc] show ?thesis by (simp add: cb_start_frame)
next
  case CbStep
  with st have "cb_step src s = Inr s'" by simp
  from cb_step_out_bound [OF con le this] show ?thesis .
qed

lemma run_out_bound:
  assumes "src_contract src"
  shows "frames (outputData s) \<le> outputBufsize s \<Longrightarrow> run src s evs = Inr s'
           \<Longrightarrow> frames (outputData s') \<le> outputBufsize s'"
proof (induction evs arbitrary: s)
  case Nil
  then show ?case by simp
next
  case (Cons ev evs)
  from Cons.prems(2) obtain s1 where a: "step src s ev = Inr s1" and b: "run src s1 evs = Inr s'"
    by (auto split: sum.splits)
  from step_out_bound [OF assms Cons.prems(1) a]
  have "frames (outputData s1) \<le> outputBufsize s1" .
  from Cons.IH [OF this b] show ?case .
qed

end
